theory Spec2Isabelle
  imports Main "HOL-Library.Word"
begin

unbundle bit_operations_syntax

section \<open>Bytes, Go strings, errors and panics\<close>

text \<open>
  A Go \<^verbatim>\<open>string\<close> and a Go \<^verbatim>\<open>[]byte\<close> are both sequences of bytes; both are modelled as
  lists of 8-bit words. \<open>str\<close> writes an ASCII literal as such a list.

  A Go function with result \<^verbatim>\<open>(T, error)\<close> returns both components, so the model returns
  the pair (the error is \<open>None\<close> for \<^verbatim>\<open>nil\<close>). A run-time panic is a third way to leave a
  function; it is the outcome \<open>Panics\<close>. A function that reads from a \<^verbatim>\<open>*bytes.Buffer\<close>
  takes the unread bytes and returns the bytes still unread.
\<close>

type_synonym byte = "8 word"

definition str :: "string \<Rightarrow> byte list" where
  "str s = map of_char s"

datatype error = EOF | ErrUnexpectedEOF | Errorf string

fun Error :: "error \<Rightarrow> string" where
  "Error EOF = ''EOF''"
| "Error ErrUnexpectedEOF = ''unexpected EOF''"
| "Error (Errorf s) = s"

datatype panic =
    NilDereference  \<comment> \<open>a method call on a nil interface value\<close>
  | SliceBounds     \<comment> \<open>slice bounds out of range\<close>
  | MakeSliceLen    \<comment> \<open>makeslice: len out of range\<close>

datatype 'a outcome = Returns 'a | Panics panic

section \<open>The library calls the codec makes\<close>

text \<open>\<^verbatim>\<open>bytes.Buffer.ReadString(delim)\<close>: the bytes up to and including the first \<open>delim\<close>;
  without one, everything that was left together with \<^verbatim>\<open>io.EOF\<close>.\<close>

definition ReadString :: "byte list \<Rightarrow> byte \<Rightarrow> byte list \<times> error option \<times> byte list" where
  "ReadString buf delim =
     (case dropWhile (\<lambda>b. b \<noteq> delim) buf of
        [] \<Rightarrow> (buf, Some EOF, [])
      | d # rest \<Rightarrow> (takeWhile (\<lambda>b. b \<noteq> delim) buf @ [d], None, rest))"

text \<open>\<^verbatim>\<open>bytes.Buffer.ReadByte()\<close>: on an empty buffer the byte is 0 and the error \<^verbatim>\<open>io.EOF\<close>.\<close>

definition ReadByte :: "byte list \<Rightarrow> byte \<times> error option \<times> byte list" where
  "ReadByte buf = (case buf of [] \<Rightarrow> (0, Some EOF, []) | b # rest \<Rightarrow> (b, None, rest))"

text \<open>\<^verbatim>\<open>bytes.Buffer.Read(p)\<close>: copies \<open>min (len p) (len buf)\<close> bytes into \<open>p\<close>; on an empty
  buffer the error is \<^verbatim>\<open>io.EOF\<close> unless \<open>p\<close> has length 0. The result is the new content
  of \<open>p\<close>, the count, the error and the unread bytes.\<close>

definition Read :: "byte list \<Rightarrow> byte list \<Rightarrow> byte list \<times> nat \<times> error option \<times> byte list" where
  "Read buf p =
     (if buf = [] then (if length p = 0 then (p, 0, None, []) else (p, 0, Some EOF, []))
      else let n = min (length p) (length buf)
           in (take n buf @ drop n p, n, None, drop n buf))"

text \<open>\<^verbatim>\<open>io.ReadFull\<close> on a buffer, as \<^verbatim>\<open>binary.Read\<close> calls it for a fixed-size value:
  \<^verbatim>\<open>io.EOF\<close> when nothing could be read, \<^verbatim>\<open>io.ErrUnexpectedEOF\<close> when too little.\<close>

definition ReadFull :: "byte list \<Rightarrow> nat \<Rightarrow> byte list \<times> error option \<times> byte list" where
  "ReadFull buf n =
     (if n \<le> length buf then (take n buf, None, drop n buf)
      else if buf = [] then ([], Some EOF, [])
      else (buf, Some ErrUnexpectedEOF, []))"

text \<open>\<^verbatim>\<open>binary.BigEndian\<close>.\<close>

definition PutUint32 :: "32 word \<Rightarrow> byte list" where
  "PutUint32 v = [ucast (drop_bit 24 v), ucast (drop_bit 16 v), ucast (drop_bit 8 v), ucast v]"

definition Uint32 :: "byte list \<Rightarrow> 32 word" where
  "Uint32 b = ucast (b ! 3) OR push_bit 8 (ucast (b ! 2)) OR push_bit 16 (ucast (b ! 1))
     OR push_bit 24 (ucast (b ! 0))"

definition PutUint64 :: "64 word \<Rightarrow> byte list" where
  "PutUint64 v = [ucast (drop_bit 56 v), ucast (drop_bit 48 v), ucast (drop_bit 40 v),
     ucast (drop_bit 32 v), ucast (drop_bit 24 v), ucast (drop_bit 16 v), ucast (drop_bit 8 v),
     ucast v]"

definition Uint64 :: "byte list \<Rightarrow> 64 word" where
  "Uint64 b = ucast (b ! 7) OR push_bit 8 (ucast (b ! 6)) OR push_bit 16 (ucast (b ! 5))
     OR push_bit 24 (ucast (b ! 4)) OR push_bit 32 (ucast (b ! 3)) OR push_bit 40 (ucast (b ! 2))
     OR push_bit 48 (ucast (b ! 1)) OR push_bit 56 (ucast (b ! 0))"

text \<open>\<^verbatim>\<open>binary.Read(buf, binary.BigEndian, &val)\<close> for a 32-bit and a 64-bit \<open>val\<close>; on an
  error \<open>val\<close> keeps the zero it was declared with.\<close>

definition binary_Read32 :: "byte list \<Rightarrow> 32 word \<times> error option \<times> byte list" where
  "binary_Read32 buf =
     (case ReadFull buf 4 of
        (bs, None, buf') \<Rightarrow> (Uint32 bs, None, buf')
      | (bs, Some e, buf') \<Rightarrow> (0, Some e, buf'))"

definition binary_Read64 :: "byte list \<Rightarrow> 64 word \<times> error option \<times> byte list" where
  "binary_Read64 buf =
     (case ReadFull buf 8 of
        (bs, None, buf') \<Rightarrow> (Uint64 bs, None, buf')
      | (bs, Some e, buf') \<Rightarrow> (0, Some e, buf'))"

text \<open>\<^verbatim>\<open>strings.Trim(s, "\x00")\<close>: all leading and trailing NUL bytes removed.\<close>

definition Trim0 :: "byte list \<Rightarrow> byte list" where
  "Trim0 s = rev (dropWhile (\<lambda>b. b = 0) (rev (dropWhile (\<lambda>b. b = 0) s)))"

section \<open>Wire primitives (argument.go)\<close>

text \<open>\<^verbatim>\<open>padTo32Bits\<close>: the loop appends a zero byte while \<open>i \<ge> 0\<close>.\<close>

function padLoop :: "int \<Rightarrow> byte list \<Rightarrow> byte list" where
  "padLoop i data = (if i \<ge> 0 then padLoop (i - 1) (data @ [0]) else data)"
  by pat_completeness auto
termination
  by (relation "measure (\<lambda>(i, data). nat (i + 1))") auto

declare padLoop.simps [simp del]

definition padTo32Bits :: "byte list \<Rightarrow> byte list" where
  "padTo32Bits data =
     (let origLength = int (length data);
          padLength = (origLength + 3) AND NOT 3;
          i = padLength - origLength - 1
      in padLoop i data)"

definition encodeString :: "byte list \<Rightarrow> byte list" where
  "encodeString s = (let nullTerminated = s @ [0] in padTo32Bits nullTerminated)"

text \<open>\<^verbatim>\<open>encodeByteSlice\<close>: \<^verbatim>\<open>int32(len(data))\<close> keeps the low 32 bits of the length.\<close>

definition encodeByteSlice :: "byte list \<Rightarrow> byte list" where
  "encodeByteSlice data =
     (let n = (word_of_nat (length data) :: 32 word)
      in padTo32Bits (PutUint32 n @ data))"

text \<open>
  \<^verbatim>\<open>decodeString\<close>. The padding loop reads with \<^verbatim>\<open>b, err := buf.ReadByte()\<close> and tests only
  \<open>b\<close>; when \<open>b\<close> is not 0 it builds its error from \<^verbatim>\<open>err.Error()\<close>, which is a method call on
  the nil interface whenever the read succeeded.
\<close>

function popPadding :: "int \<Rightarrow> byte list \<Rightarrow> (error option \<times> byte list) outcome" where
  "popPadding toPop buf =
     (if toPop > 0 then
        (case ReadByte buf of
           (b, err, buf') \<Rightarrow>
             if b \<noteq> 0 then
               (case err of
                  None \<Rightarrow> Panics NilDereference
                | Some e \<Rightarrow> Returns (Some (Errorf (''Found a malformed OSC string: '' @ Error e)), buf'))
             else popPadding (toPop - 1) buf')
      else Returns (None, buf))"
  by pat_completeness auto
termination
  by (relation "measure (\<lambda>(toPop, buf). nat toPop)") auto

declare popPadding.simps [simp del]

definition decodeString :: "byte list \<Rightarrow> (byte list \<times> error option \<times> byte list) outcome" where
  "decodeString buf =
     (case ReadString buf 0 of
        (stringNullTerm, Some err, buf1) \<Rightarrow> Returns ([], Some err, buf1)
      | (stringNullTerm, None, buf1) \<Rightarrow>
          let s = Trim0 stringNullTerm;
              stringLength = int (length stringNullTerm);
              paddedLength = (stringLength + 3) AND NOT 3;
              toPop = paddedLength - stringLength
          in (case popPadding toPop buf1 of
                Panics p \<Rightarrow> Panics p
              | Returns (Some err, buf2) \<Rightarrow> Returns ([], Some err, buf2)
              | Returns (None, buf2) \<Rightarrow> Returns (s, None, buf2)))"

text \<open>
  \<^verbatim>\<open>decodeByteSlice\<close>. \<open>n\<close> is an \<^verbatim>\<open>int32\<close>; \<^verbatim>\<open>(n + 3) &^ 0x03\<close> is computed in 32 bits and
  then widened to \<^verbatim>\<open>int\<close>. \<^verbatim>\<open>make([]byte, nExpected)\<close> panics for a negative length, and
  \<^verbatim>\<open>data[:n]\<close> panics unless \<open>0 \<le> n \<le> cap data\<close>.
\<close>

definition decodeByteSlice :: "byte list \<Rightarrow> (byte list \<times> error option \<times> byte list) outcome" where
  "decodeByteSlice buf =
     (case binary_Read32 buf of
        (n, Some err, buf1) \<Rightarrow> Returns ([], Some err, buf1)
      | (n, None, buf1) \<Rightarrow>
          if n = 0 then Returns ([], None, buf1)
          else
            let nExpected = sint ((n + 3) AND NOT 3) in
            if nExpected < 0 then Panics MakeSliceLen
            else
              (case Read buf1 (replicate (nat nExpected) 0) of
                 (data, nRead, Some err, buf2) \<Rightarrow> Returns ([], Some err, buf2)
               | (data, nRead, None, buf2) \<Rightarrow>
                   if int nRead \<noteq> nExpected then
                     Returns ([], Some (Errorf ''Didn't read expected number of bytes''), buf2)
                   else if sint n < 0 \<or> int (length data) < sint n then Panics SliceBounds
                   else Returns (take (nat (sint n)) data, None, buf2)))"

section \<open>Time tags (argument.go)\<close>

text \<open>
  What the codec uses of Go's \<^verbatim>\<open>time.Time\<close>: the instant (seconds since the Unix epoch and
  nanoseconds within the second, \<open>0 \<le> tnsec < 10^9\<close>), the optional monotonic clock reading
  and the location. Go's \<^verbatim>\<open>==\<close> on \<^verbatim>\<open>Time\<close> compares all of them. The zero \<^verbatim>\<open>Time\<close> is
  January 1 of year 1, 00:00:00 UTC.
\<close>

datatype Location = UTC | Local | OtherLocation string

record Time =
  tsec :: int
  tnsec :: int
  tmono :: "int option"
  tloc :: Location

definition zeroTime :: Time where
  "zeroTime = \<lparr>tsec = - 62135596800, tnsec = 0, tmono = None, tloc = UTC\<rparr>"

text \<open>\<^verbatim>\<open>t.Unix()\<close> and \<^verbatim>\<open>t.UnixNano()\<close> are \<^verbatim>\<open>int64\<close> values; the latter is computed as
  \<^verbatim>\<open>sec*1e9 + nsec\<close> in 64 bits.\<close>

definition Unix :: "Time \<Rightarrow> 64 word" where
  "Unix t = word_of_int (tsec t)"

definition UnixNano :: "Time \<Rightarrow> 64 word" where
  "UnixNano t = Unix t * 1000000000 + word_of_int (tnsec t)"

text \<open>\<^verbatim>\<open>time.Unix(sec, nsec)\<close> brings \<open>nsec\<close> into \<open>[0, 10^9)\<close> (Go's division truncates)
  and gives a \<^verbatim>\<open>Time\<close> in the local zone, without monotonic reading.\<close>

definition time_Unix :: "int \<Rightarrow> int \<Rightarrow> Time" where
  "time_Unix sec nsec =
     (let (sec, nsec) =
        (if nsec < 0 \<or> nsec \<ge> 1000000000 then
           let n = sgn nsec * (\<bar>nsec\<bar> div 1000000000);
               sec = sec + n;
               nsec = nsec - n * 1000000000
           in if nsec < 0 then (sec - 1, nsec + 1000000000) else (sec, nsec)
         else (sec, nsec))
      in \<lparr>tsec = sec, tnsec = nsec, tmono = None, tloc = Local\<rparr>)"

text \<open>\<^verbatim>\<open>t.In(loc)\<close>.\<close>

definition In :: "Time \<Rightarrow> Location \<Rightarrow> Time" where
  "In t l = t\<lparr>tmono := None, tloc := l\<rparr>"

definition unixOSCEpochOffset :: "64 word" where
  "unixOSCEpochOffset = 2208988800"

definition nanosPerSecond :: "64 word" where
  "nanosPerSecond = 1000000000"

definition timeTagImmediate :: "64 word" where
  "timeTagImmediate = 1"

record TimeTag =
  time :: Time
  Immediate :: bool

definition NewTimeTag :: "Time \<Rightarrow> TimeTag" where
  "NewTimeTag t = \<lparr>time = t, Immediate = False\<rparr>"

definition NewImmediateTimeTag :: TimeTag where
  "NewImmediateTimeTag = \<lparr>time = zeroTime, Immediate = True\<rparr>"

text \<open>The zero \<^verbatim>\<open>TimeTag{}\<close>.\<close>

definition zeroTimeTag :: TimeTag where
  "zeroTimeTag = \<lparr>time = zeroTime, Immediate = False\<rparr>"

text \<open>\<^verbatim>\<open>encodeTimeTag\<close>: all arithmetic is in 64 bits; \<^verbatim>\<open><<\<close> and \<^verbatim>\<open>&\<close> bind tighter
  than \<^verbatim>\<open>|\<close>.\<close>

definition encodeTimeTag :: "TimeTag \<Rightarrow> byte list" where
  "encodeTimeTag tt =
     (let timeTag64 =
        (if Immediate tt then timeTagImmediate
         else
           let timeOSCSecs = Unix (time tt) + unixOSCEpochOffset;
               timeOSCNanos = (UnixNano (time tt) + unixOSCEpochOffset * nanosPerSecond)
                                - timeOSCSecs * nanosPerSecond
           in push_bit 32 timeOSCSecs OR (timeOSCNanos AND 0xFFFFFFFF))
      in PutUint64 timeTag64)"

definition decodeTimeTag :: "byte list \<Rightarrow> TimeTag \<times> error option \<times> byte list" where
  "decodeTimeTag buf =
     (case binary_Read64 buf of
        (timeTag64, Some err, buf') \<Rightarrow> (zeroTimeTag, Some err, buf')
      | (timeTag64, None, buf') \<Rightarrow>
          let timeTag =
            (if timeTag64 = timeTagImmediate then NewImmediateTimeTag
             else
               let seconds = sint (drop_bit 32 timeTag64 - unixOSCEpochOffset);
                   nanoSeconds = sint (timeTag64 AND 0xFFFFFFFF);
                   t = In (time_Unix seconds nanoSeconds) UTC
               in NewTimeTag t)
          in (timeTag, None, buf'))"

section \<open>Arguments (argument.go)\<close>

text \<open>
  The values an \<^verbatim>\<open>interface{}\<close> argument can hold: the nine supported kinds, and
  \<open>AUnsupported\<close> for a value of any other Go type. A \<^verbatim>\<open>float32\<close> and a \<^verbatim>\<open>float64\<close> are
  carried as their IEEE-754 bit patterns (\<^verbatim>\<open>math.Float32bits\<close>, \<^verbatim>\<open>math.Float64bits\<close>), which
  is what \<^verbatim>\<open>binary.Write\<close> and \<^verbatim>\<open>binary.Read\<close> transfer.
\<close>

datatype Argument =
    ANil
  | AInt32 "32 word"
  | AFloat32 "32 word"
  | AString "byte list"
  | ABlob "byte list"
  | ABool bool
  | AInt64 "64 word"
  | AFloat64 "64 word"
  | ATimeTag TimeTag
  | AUnsupported

fun typeTag :: "Argument \<Rightarrow> byte list \<times> error option" where
  "typeTag ANil = (str ''N'', None)"
| "typeTag (AInt32 v) = (str ''i'', None)"
| "typeTag (AFloat32 v) = (str ''f'', None)"
| "typeTag (AString v) = (str ''s'', None)"
| "typeTag (ABlob v) = (str ''b'', None)"
| "typeTag (ABool val) = (if val then (str ''T'', None) else (str ''F'', None))"
| "typeTag (AInt64 v) = (str ''h'', None)"
| "typeTag (AFloat64 v) = (str ''d'', None)"
| "typeTag (ATimeTag v) = (str ''t'', None)"
| "typeTag AUnsupported = ([], Some (Errorf ''Unsupported type''))"

fun encodeArgument :: "Argument \<Rightarrow> byte list \<times> error option" where
  "encodeArgument ANil = ([], None)"
| "encodeArgument (AInt32 v) = (PutUint32 v, None)"
| "encodeArgument (AFloat32 v) = (PutUint32 v, None)"
| "encodeArgument (AString v) = (encodeString v, None)"
| "encodeArgument (ABlob v) = (encodeByteSlice v, None)"
| "encodeArgument (ABool v) = ([], None)"
| "encodeArgument (AInt64 v) = (PutUint64 v, None)"
| "encodeArgument (AFloat64 v) = (PutUint64 v, None)"
| "encodeArgument (ATimeTag v) = (encodeTimeTag v, None)"
| "encodeArgument AUnsupported = ([], Some (Errorf ''Unsupported argument type''))"

text \<open>
  \<^verbatim>\<open>readArguments\<close>. \<open>readTag\<close> is the body of the \<^verbatim>\<open>switch\<close>: it appends to \<open>args\<close> and sets
  \<open>err\<close>. The source ranges over the runes of the tag string; every tag of the switch is
  one ASCII byte, and a byte of any other rune reaches the default case, so the model
  ranges over the bytes.
\<close>

definition readTag ::
  "byte \<Rightarrow> byte list \<Rightarrow> Argument list \<Rightarrow> (Argument list \<times> error option \<times> byte list) outcome" where
  "readTag tag buf args =
     (if tag = of_char CHR ''T'' then Returns (args @ [ABool True], None, buf)
      else if tag = of_char CHR ''F'' then Returns (args @ [ABool True], None, buf)
      else if tag = of_char CHR ''N'' then Returns (args @ [ANil], None, buf)
      else if tag = of_char CHR ''i'' then
        (case binary_Read32 buf of (val, err, buf') \<Rightarrow> Returns (args @ [AInt32 val], err, buf'))
      else if tag = of_char CHR ''f'' then
        (case binary_Read32 buf of (val, err, buf') \<Rightarrow> Returns (args @ [AFloat32 val], err, buf'))
      else if tag = of_char CHR ''s'' then
        (case decodeString buf of
           Panics p \<Rightarrow> Panics p
         | Returns (val, err, buf') \<Rightarrow> Returns (args @ [AString val], err, buf'))
      else if tag = of_char CHR ''b'' then
        (case decodeByteSlice buf of
           Panics p \<Rightarrow> Panics p
         | Returns (val, err, buf') \<Rightarrow> Returns (args @ [ABlob val], err, buf'))
      else if tag = of_char CHR ''h'' then
        (case binary_Read64 buf of (val, err, buf') \<Rightarrow> Returns (args @ [AInt64 val], err, buf'))
      else if tag = of_char CHR ''d'' then
        (case binary_Read64 buf of (val, err, buf') \<Rightarrow> Returns (args @ [AFloat64 val], err, buf'))
      else if tag = of_char CHR ''t'' then
        (case decodeTimeTag buf of (val, err, buf') \<Rightarrow> Returns (args @ [ATimeTag val], err, buf'))
      else Returns (args, Some (Errorf ''Found unsupported argument type''), buf))"

fun readLoop ::
  "byte list \<Rightarrow> byte list \<Rightarrow> Argument list \<Rightarrow> (Argument list \<times> error option \<times> byte list) outcome" where
  "readLoop [] buf args = Returns (args, None, buf)"
| "readLoop (tag # tags) buf args =
     (case readTag tag buf args of
        Panics p \<Rightarrow> Panics p
      | Returns (args', Some err, buf') \<Rightarrow> Returns ([], Some (Errorf ''Found malformed argument''), buf')
      | Returns (args', None, buf') \<Rightarrow> readLoop tags buf' args')"

text \<open>\<^verbatim>\<open>typeTagString[:1]\<close> panics when the string is empty.\<close>

definition readArguments ::
  "byte list \<Rightarrow> byte list \<Rightarrow> (Argument list \<times> error option \<times> byte list) outcome" where
  "readArguments typeTagString buf =
     (if length typeTagString < 1 then Panics SliceBounds
      else
        let first = take 1 typeTagString in
        if first \<noteq> str '','' then Returns ([], Some (Errorf ''Malformed type tag string''), buf)
        else readLoop (drop 1 typeTagString) buf [])"

section \<open>Messages (message.go)\<close>

record Message =
  Address :: "byte list"
  Arguments :: "Argument list"

definition NewMessage :: "byte list \<Rightarrow> Message" where
  "NewMessage address = \<lparr>Address = address, Arguments = []\<rparr>"

fun typeTagLoop :: "Argument list \<Rightarrow> byte list \<Rightarrow> byte list \<times> error option" where
  "typeTagLoop [] typeTagString = (typeTagString, None)"
| "typeTagLoop (arg # args) typeTagString =
     (case typeTag arg of
        (tag, Some err) \<Rightarrow> ([], Some err)
      | (tag, None) \<Rightarrow> typeTagLoop args (typeTagString @ tag))"

definition TypeTagString :: "Message \<Rightarrow> byte list \<times> error option" where
  "TypeTagString msg = typeTagLoop (Arguments msg) (str '','')"

fun marshalLoop :: "Argument list \<Rightarrow> byte list \<Rightarrow> byte list \<times> error option" where
  "marshalLoop [] buf = (buf, None)"
| "marshalLoop (arg # args) buf =
     (case encodeArgument arg of
        (argData, Some err) \<Rightarrow> ([], Some err)
      | (argData, None) \<Rightarrow> marshalLoop args (buf @ argData))"

definition Message_MarshalBinary :: "Message \<Rightarrow> byte list \<times> error option" where
  "Message_MarshalBinary msg =
     (let buf = encodeString (Address msg) in
      case TypeTagString msg of
        (typeTagString, Some err) \<Rightarrow> ([], Some err)
      | (typeTagString, None) \<Rightarrow> marshalLoop (Arguments msg) (buf @ encodeString typeTagString))"

text \<open>\<^verbatim>\<open>(*Message).UnmarshalBinary\<close>: the result is the receiver after the call and the
  error; the receiver is assigned only after all three decoders succeeded.\<close>

definition Message_UnmarshalBinary :: "Message \<Rightarrow> byte list \<Rightarrow> (Message \<times> error option) outcome" where
  "Message_UnmarshalBinary msg data =
     (case decodeString data of
        Panics p \<Rightarrow> Panics p
      | Returns (address, Some err, buf) \<Rightarrow> Returns (msg, Some err)
      | Returns (address, None, buf) \<Rightarrow>
          (case decodeString buf of
             Panics p \<Rightarrow> Panics p
           | Returns (typeTagString, Some err, buf) \<Rightarrow> Returns (msg, Some err)
           | Returns (typeTagString, None, buf) \<Rightarrow>
               (case readArguments typeTagString buf of
                  Panics p \<Rightarrow> Panics p
                | Returns (args, Some err, buf) \<Rightarrow> Returns (msg, Some err)
                | Returns (args, None, buf) \<Rightarrow>
                    Returns (msg\<lparr>Address := address, Arguments := args\<rparr>, None))))"

text \<open>\<^verbatim>\<open>NewMessageFromData\<close>, the decoder \<^verbatim>\<open>decodePacket\<close> calls: it returns its message
  also beside an error.\<close>

definition NewMessageFromData :: "byte list \<Rightarrow> (Message \<times> error option) outcome" where
  "NewMessageFromData data =
     (let msg = \<lparr>Address = [], Arguments = []\<rparr> in
      case decodeString data of
        Panics p \<Rightarrow> Panics p
      | Returns (address, Some err, buf) \<Rightarrow> Returns (msg, Some err)
      | Returns (address, None, buf) \<Rightarrow>
          let msg = msg\<lparr>Address := address\<rparr> in
          (case decodeString buf of
             Panics p \<Rightarrow> Panics p
           | Returns (typeTagString, Some err, buf) \<Rightarrow> Returns (msg, Some err)
           | Returns (typeTagString, None, buf) \<Rightarrow>
               (case readArguments typeTagString buf of
                  Panics p \<Rightarrow> Panics p
                | Returns (args, Some err, buf) \<Rightarrow> Returns (msg, Some err)
                | Returns (args, None, buf) \<Rightarrow> Returns (msg\<lparr>Arguments := args\<rparr>, None))))"

section \<open>What the wire format carries\<close>

text \<open>The number of zero bytes that bring a length to the next multiple of 4.\<close>

definition padding :: "nat \<Rightarrow> nat" where
  "padding k = (4 - k mod 4) mod 4"

text \<open>
  The arguments that the wire format carries unchanged: a string without NUL byte (the
  first NUL ends a string on the wire), a blob whose rounded length fits an \<^verbatim>\<open>int32\<close>, the
  boolean true, a time tag that is immediate with the zero time or lies in UTC within the
  32 bits of seconds since 1900 and is not the encoding of "immediate", and all integers
  and floats (as bit patterns).
\<close>

fun restorable :: "Argument \<Rightarrow> bool" where
  "restorable ANil = True"
| "restorable (AInt32 v) = True"
| "restorable (AFloat32 v) = True"
| "restorable (AString v) = (0 \<notin> set v)"
| "restorable (ABlob v) = (length v + 3 < 2 ^ 31)"
| "restorable (ABool v) = v"
| "restorable (AInt64 v) = True"
| "restorable (AFloat64 v) = True"
| "restorable (ATimeTag tt) =
     (if Immediate tt then time tt = zeroTime
      else tloc (time tt) = UTC \<and> tmono (time tt) = None \<and>
        0 \<le> tnsec (time tt) \<and> tnsec (time tt) < 1000000000 \<and>
        0 \<le> tsec (time tt) + 2208988800 \<and> tsec (time tt) + 2208988800 < 2 ^ 32 \<and>
        \<not> (tsec (time tt) = - 2208988800 \<and> tnsec (time tt) = 1))"
| "restorable AUnsupported = False"

text \<open>The tag characters and the payload bytes of a list of arguments.\<close>

definition tagsOf :: "Argument list \<Rightarrow> byte list" where
  "tagsOf args = concat (map (\<lambda>a. fst (typeTag a)) args)"

definition payloadOf :: "Argument list \<Rightarrow> byte list" where
  "payloadOf args = concat (map (\<lambda>a. fst (encodeArgument a)) args)"

section \<open>Bundles and packets\<close>

text \<open>
  A \<^verbatim>\<open>Packet\<close> is an interface value: nil, a message or a bundle. A bundle owns the list of
  its child packets.
\<close>

datatype Packet = PNil | PMessage Message | PBundle Bundle
and Bundle = Bundle (TimeTag: TimeTag) (Elements: "Packet list")

definition bundleString :: "byte list" where
  "bundleString = str ''#bundle'' @ [0]"

definition NewBundle :: Bundle where
  "NewBundle = Bundle \<lparr>time = zeroTime, Immediate = True\<rparr> []"

text \<open>
  \<^verbatim>\<open>decodePacket\<close>, \<^verbatim>\<open>NewBundleFromData\<close> and \<^verbatim>\<open>(*Bundle).UnmarshalBinary\<close> call each other;
  \<open>bundleLoop\<close> is the \<^verbatim>\<open>for\<close> loop of the latter, with the buffer and \<open>elements\<close> as its
  state. \<^verbatim>\<open>make([]byte, count)\<close> gives \<open>count\<close> zero bytes.
\<close>

function decodePacket :: "byte list \<Rightarrow> (Packet \<times> error option) outcome"
  and NewBundleFromData :: "byte list \<Rightarrow> (Bundle \<times> error option) outcome"
  and Bundle_UnmarshalBinary :: "Bundle \<Rightarrow> byte list \<Rightarrow> (Bundle \<times> error option) outcome"
  and bundleLoop :: "byte list \<Rightarrow> Packet list \<Rightarrow> (Packet list \<times> error option) outcome"
where
  "decodePacket data =
     (let lenData = int (length data) in
      if lenData \<le> 0 \<or> lenData mod 4 \<noteq> 0 then
        Returns (PNil, Some (Errorf ''Packet data is not a multiple of 4 bytes''))
      else
        let firstChar = data ! 0 in
        if firstChar = of_char CHR ''/'' then
          (case NewMessageFromData data of
             Panics p \<Rightarrow> Panics p
           | Returns (p, Some err) \<Rightarrow> Returns (PNil, Some err)
           | Returns (p, None) \<Rightarrow> Returns (PMessage p, None))
        else if firstChar = of_char CHR ''#'' then
          (case NewBundleFromData data of
             Panics p \<Rightarrow> Panics p
           | Returns (p, Some err) \<Rightarrow> Returns (PNil, Some err)
           | Returns (p, None) \<Rightarrow> Returns (PBundle p, None))
        else Returns (PNil, Some (Errorf ''Malformed packet'')))"
| "NewBundleFromData data =
     (let bundle = NewBundle in Bundle_UnmarshalBinary bundle data)"
| "Bundle_UnmarshalBinary bun data =
     (case decodeString data of
        Panics p \<Rightarrow> Panics p
      | Returns (identifier, Some err, buf) \<Rightarrow> Returns (bun, Some err)
      | Returns (identifier, None, buf) \<Rightarrow>
          if identifier \<noteq> str ''#bundle'' then Returns (bun, Some (Errorf ''Malformed bundle''))
          else
            (case decodeTimeTag buf of
               (timeTag, Some err, buf) \<Rightarrow> Returns (bun, Some err)
             | (timeTag, None, buf) \<Rightarrow>
                 (case bundleLoop buf [] of
                    Panics p \<Rightarrow> Panics p
                  | Returns (elements, Some err) \<Rightarrow> Returns (bun, Some err)
                  | Returns (elements, None) \<Rightarrow> Returns (Bundle timeTag elements, None))))"
| "bundleLoop buf elements =
     (case binary_Read32 buf of
        (count, Some err, buf) \<Rightarrow>
          if err = EOF then Returns (elements, None) else Returns (elements, Some err)
      | (count, None, buf) \<Rightarrow>
          (case Read buf (replicate (unat count) 0) of
             (packetData, n, Some err, buf) \<Rightarrow> Returns (elements, Some (Errorf ''Malformed bundle''))
           | (packetData, n, None, buf) \<Rightarrow>
               if (word_of_nat n :: 32 word) \<noteq> count then
                 Returns (elements, Some (Errorf ''Malformed bundle''))
               else
                 (case decodePacket packetData of
                    Panics p \<Rightarrow> Panics p
                  | Returns (p, Some err) \<Rightarrow> Returns (elements, Some err)
                  | Returns (p, None) \<Rightarrow> bundleLoop buf (elements @ [p]))))"
  by pat_completeness auto

lemma ReadFull_length:
  "ReadFull buf n = (bs, None, buf') \<Longrightarrow> length buf' + n = length buf \<and> length bs = n"
  by (auto simp: ReadFull_def split: if_splits)

lemma binary_Read32_length:
  "binary_Read32 buf = (v, None, buf') \<Longrightarrow> length buf' + 4 = length buf"
  by (auto simp: binary_Read32_def split: prod.splits option.splits dest: ReadFull_length)

lemma binary_Read64_length:
  "binary_Read64 buf = (v, None, buf') \<Longrightarrow> length buf' + 8 = length buf"
  by (auto simp: binary_Read64_def split: prod.splits option.splits dest: ReadFull_length)

lemma popPadding_length:
  "popPadding toPop buf = Returns (err, buf') \<Longrightarrow> length buf' \<le> length buf"
proof (induction "nat toPop" arbitrary: toPop buf)
  case 0
  then show ?case by (simp add: popPadding.simps)
next
  case (Suc k)
  then have pos: "toPop > 0" and k: "k = nat (toPop - 1)" by auto
  show ?case
  proof (cases buf)
    case Nil
    with pos Suc.prems have "popPadding (toPop - 1) [] = Returns (err, buf')"
      by (simp add: popPadding.simps [of toPop] ReadByte_def)
    from Suc.hyps(1) [OF k this] Nil show ?thesis by simp
  next
    case (Cons b rest)
    with pos Suc.prems have "popPadding (toPop - 1) rest = Returns (err, buf')"
      by (auto simp add: popPadding.simps [of toPop] ReadByte_def split: if_splits)
    from Suc.hyps(1) [OF k this] Cons show ?thesis by simp
  qed
qed

lemma ReadString_length:
  "ReadString buf d = (s, err, buf') \<Longrightarrow> length buf' \<le> length buf"
proof -
  have "length (dropWhile (\<lambda>b. b \<noteq> d) buf) \<le> length buf"
    by (rule length_dropWhile_le)
  then show "ReadString buf d = (s, err, buf') \<Longrightarrow> length buf' \<le> length buf"
    by (auto simp: ReadString_def split: list.splits)
qed

lemma decodeString_length:
  "decodeString buf = Returns (s, err, buf') \<Longrightarrow> length buf' \<le> length buf"
  unfolding decodeString_def
  by (auto simp: Let_def split: prod.splits option.splits outcome.splits
      dest!: ReadString_length popPadding_length)

lemma decodeTimeTag_length:
  "decodeTimeTag buf = (tt, None, buf') \<Longrightarrow> length buf' + 8 = length buf"
  by (auto simp: decodeTimeTag_def Let_def split: prod.splits option.splits
      dest: binary_Read64_length)

lemma Read_full_length:
  assumes "Read buf (replicate (unat (count :: 32 word)) 0) = (packetData, n, None, buf')"
    and "(word_of_nat n :: 32 word) = count"
  shows "length packetData \<le> length buf \<and> length buf' \<le> length buf"
proof -
  have n: "n = min (unat count) (length buf)"
    using assms(1) by (auto simp: Read_def Let_def split: if_splits)
  then have "n \<le> unat count" by simp
  moreover have "unat count < 2 ^ 32" using unsigned_less [of count] by simp
  ultimately have "unat (word_of_nat n :: 32 word) = n"
    by (simp add: unat_of_nat)
  with assms(2) have "n = unat count" by simp
  with n assms(1) show ?thesis
    by (auto simp: Read_def Let_def split: if_splits)
qed

termination decodePacket
proof (relation "measure (\<lambda>x. case x of
      Inl (Inl data) \<Rightarrow> 4 * length data + 3
    | Inl (Inr data) \<Rightarrow> 4 * length data + 2
    | Inr (Inl (bun, data)) \<Rightarrow> 4 * length data + 1
    | Inr (Inr (buf, elements)) \<Rightarrow> 4 * length buf)", goal_cases)
  case 1
  show ?case by simp
next
  case 2
  then show ?case by simp
next
  case 3
  then show ?case by simp
next
  case 4
  then show ?case
    apply clarsimp
    apply (frule decodeString_length)
    apply (frule decodeTimeTag_length [OF sym])
    apply simp
    done
next
  case 5
  then show ?case
    apply clarsimp
    apply (frule binary_Read32_length [OF sym])
    apply (frule Read_full_length [OF sym])
     apply simp
    apply simp
    done
next
  case 6
  then show ?case
    apply clarsimp
    apply (frule binary_Read32_length [OF sym])
    apply (frule Read_full_length [OF sym])
     apply simp
    apply simp
    done
qed

declare decodePacket.simps [simp del] NewBundleFromData.simps [simp del]
  Bundle_UnmarshalBinary.simps [simp del] bundleLoop.simps [simp del]

text \<open>The bundle of the repository's decoding test that holds a message and an empty
  bundle.\<close>

definition bundleWithMessageAndBundle :: "byte list" where
  "bundleWithMessageAndBundle =
     bundleString @ [0, 0, 0, 0, 0, 0, 0, 1] @
     [0, 0, 0, 0x14] @ str ''/foo'' @ [0, 0, 0, 0] @ str '',b'' @ [0, 0] @ [0, 0, 0, 3] @ str ''arg'' @ [0] @
     [0, 0, 0, 0x10] @ bundleString @ [0, 0, 0, 0, 0, 0, 0, 1]"

section \<open>Address space (address_space.go)\<close>

text \<open>
  \<^verbatim>\<open>strings.Replace(s, old, new, -1)\<close> for a non-empty \<open>old\<close>: every non-overlapping instance
  of \<open>old\<close>, from the left, is replaced.
\<close>

function Replace :: "byte list \<Rightarrow> byte list \<Rightarrow> byte list \<Rightarrow> byte list" where
  "Replace s old new =
     (if s = [] \<or> old = [] then s
      else if take (length old) s = old then new @ Replace (drop (length old) s) old new
      else hd s # Replace (tl s) old new)"
  by pat_completeness auto
termination
  by (relation "measure (\<lambda>(s, old, new). length s)") (auto simp: neq_Nil_conv)

declare Replace.simps [simp del]

text \<open>
  Go's \<^verbatim>\<open>regexp\<close> package, for the syntax that the translation of an ASCII address pattern
  without character classes produces: literal characters, the escaped slash, \<^verbatim>\<open>.\<close> (any
  character but newline), \<^verbatim>\<open>*\<close>, groups and \<^verbatim>\<open>|\<close>. \<open>regexp_Compile\<close> reads the expression
  from the left with a stack of open groups; for an expression outside this syntax it
  answers \<open>OutsideModel\<close>. \<open>accepts\<close> says whether an expression matches a whole string, and
  \<^verbatim>\<open>MatchString\<close> reports whether the string contains any match, as the library documents
  it.
\<close>

datatype regex = Empty | Lit byte | Dot | Cat regex regex | Alt regex regex | Star regex

datatype compiled = Compiled regex | CompileError string | OutsideModel

record frame =
  alternatives :: "regex list"
  items :: "regex list"

definition concatenation :: "regex list \<Rightarrow> regex" where
  "concatenation rs = (if rs = [] then Empty else foldr Cat (butlast rs) (last rs))"

definition alternation :: "frame \<Rightarrow> regex" where
  "alternation f =
     (let rs = alternatives f @ [concatenation (items f)]
      in foldr Alt (butlast rs) (last rs))"

definition literal :: "regex \<Rightarrow> frame list \<Rightarrow> frame list" where
  "literal r st =
     (case st of [] \<Rightarrow> [] | f # fs \<Rightarrow> f\<lparr>items := items f @ [r]\<rparr> # fs)"

fun parse :: "byte list \<Rightarrow> frame list \<Rightarrow> compiled" where
  "parse [] st =
     (case st of
        [f] \<Rightarrow> Compiled (alternation f)
      | _ \<Rightarrow> CompileError ''missing closing )'')"
| "parse (c # cs) st =
     (case st of
        [] \<Rightarrow> OutsideModel
      | f # fs \<Rightarrow>
          if c = of_char CHR ''('' then parse cs (\<lparr>alternatives = [], items = []\<rparr> # st)
          else if c = of_char CHR '')'' then
            (case fs of
               [] \<Rightarrow> CompileError ''unexpected )''
             | g # gs \<Rightarrow> parse cs (literal (alternation f) fs))
          else if c = of_char CHR ''|'' then
            parse cs (\<lparr>alternatives = alternatives f @ [concatenation (items f)], items = []\<rparr> # fs)
          else if c = of_char CHR ''*'' then
            (case items f of
               [] \<Rightarrow> CompileError ''missing argument to repetition operator''
             | r # rs \<Rightarrow>
                 (case last (items f) of
                    Star q \<Rightarrow> CompileError ''invalid nested repetition operator''
                  | q \<Rightarrow> parse cs (f\<lparr>items := butlast (items f) @ [Star q]\<rparr> # fs)))
          else if c = of_char CHR ''.'' then parse cs (literal Dot st)
          else if c = 0x5C then
            (case cs of
               [] \<Rightarrow> CompileError ''trailing backslash at end of expression''
             | d # ds \<Rightarrow> if d = of_char CHR ''/'' then parse ds (literal (Lit d) st) else OutsideModel)
          else if c \<in> set (str ''[]+?^${}'') \<or> c \<ge> 0x80 then OutsideModel
          else parse cs (literal (Lit c) st))"

definition regexp_Compile :: "byte list \<Rightarrow> compiled" where
  "regexp_Compile expr = parse expr [\<lparr>alternatives = [], items = []\<rparr>]"

fun nullable :: "regex \<Rightarrow> bool" where
  "nullable Empty = True"
| "nullable (Lit c) = False"
| "nullable Dot = False"
| "nullable (Cat r s) = (nullable r \<and> nullable s)"
| "nullable (Alt r s) = (nullable r \<or> nullable s)"
| "nullable (Star r) = True"

fun accepts :: "regex \<Rightarrow> byte list \<Rightarrow> bool" where
  "accepts r [] = nullable r"
| "accepts Empty (c # cs) = False"
| "accepts (Lit d) (c # cs) = (c = d \<and> cs = [])"
| "accepts Dot (c # cs) = (c \<noteq> 0x0A \<and> cs = [])"
| "accepts (Alt r s) (c # cs) = (accepts r (c # cs) \<or> accepts s (c # cs))"
| "accepts (Cat r s) (c # cs) =
     list_ex (\<lambda>k. accepts r (take k (c # cs)) \<and> accepts s (drop k (c # cs))) [0 ..< Suc (Suc (length cs))]"
| "accepts (Star r) (c # cs) =
     list_ex (\<lambda>k. accepts r (take (Suc k) (c # cs)) \<and> accepts (Star r) (drop (Suc k) (c # cs)))
       [0 ..< Suc (length cs)]"


definition MatchString :: "regex \<Rightarrow> byte list \<Rightarrow> bool" where
  "MatchString re s =
     list_ex (\<lambda>i. list_ex (\<lambda>j. accepts re (take j (drop i s))) [0 ..< Suc (length s - i)])
       [0 ..< Suc (length s)]"

text \<open>\<^verbatim>\<open>addressPatternToRegexp\<close> (address_space.go); the backslash is the byte 5C.\<close>

definition addressPatternToRegexp :: "byte list \<Rightarrow> compiled" where
  "addressPatternToRegexp addressPattern =
     (let apRegexp = Replace addressPattern (str ''/'') (0x5C # str ''/'');
          apRegexp = Replace apRegexp (str ''?'') (str ''.'');
          apRegexp = Replace apRegexp (str ''*'') (str ''.*'');
          apRegexp = Replace apRegexp (str ''!['') (str ''[^'');
          apRegexp = Replace apRegexp (str ''{'') (str ''('');
          apRegexp = Replace apRegexp (str ''}'') (str '')'');
          apRegexp = Replace apRegexp (str '','') (str ''|'')
      in regexp_Compile apRegexp)"

text \<open>
  A handler is a function that may change the world around it: it takes the state \<open>'s\<close>
  of that world and the message, and gives the new state. \<^verbatim>\<open>Handle\<close> returns the address
  space after the call and the error; \<^verbatim>\<open>Dispatch\<close> takes a message pointer, \<open>None\<close> for nil.
\<close>

record 's Method =
  AddressPattern :: "byte list"
  Function :: "'s \<Rightarrow> Message \<Rightarrow> 's"
  regexp :: regex

record 's AddressSpace =
  methods :: "'s Method list"

definition Handle ::
  "'s AddressSpace \<Rightarrow> byte list \<Rightarrow> ('s \<Rightarrow> Message \<Rightarrow> 's) \<Rightarrow> ('s AddressSpace \<times> error option) option" where
  "Handle a addressPattern fn =
     (case addressPatternToRegexp addressPattern of
        OutsideModel \<Rightarrow> None
      | CompileError e \<Rightarrow> Some (a, Some (Errorf e))
      | Compiled re \<Rightarrow>
          let method = \<lparr>AddressPattern = addressPattern, Function = fn, regexp = re\<rparr>
          in Some (a\<lparr>methods := methods a @ [method]\<rparr>, None))"

fun dispatchLoop :: "'s Method list \<Rightarrow> Message \<Rightarrow> 's \<Rightarrow> 's" where
  "dispatchLoop [] m world = world"
| "dispatchLoop (h # hs) m world =
     (if MatchString (regexp h) (Address m) then dispatchLoop hs m (Function h world m)
      else dispatchLoop hs m world)"

definition Dispatch :: "'s AddressSpace \<Rightarrow> Message option \<Rightarrow> 's \<Rightarrow> 's" where
  "Dispatch a m world =
     (case m of None \<Rightarrow> world | Some msg \<Rightarrow> dispatchLoop (methods a) msg world)"

text \<open>The messages that a handler registered alone for \<open>addressPattern\<close> is called with
  when a message at \<open>address\<close> is dispatched.\<close>

definition invoked :: "byte list \<Rightarrow> byte list \<Rightarrow> byte list list option" where
  "invoked addressPattern address =
     (case Handle \<lparr>methods = []\<rparr> addressPattern (\<lambda>calls m. calls @ [Address m]) of
        Some (a, None) \<Rightarrow> Some (Dispatch a (Some (NewMessage address)) [])
      | _ \<Rightarrow> None)"

section \<open>String decoding (claim C3)\<close>

text \<open>
  Claim C3: for every input buffer, \<^verbatim>\<open>decodeString\<close> returns a malformed-data error, and does
  not panic, whenever a byte of the padding region is not 0. The code does otherwise: on
  the buffer \<^verbatim>\<open>"a\x00\x01\x00"\<close> the first padding byte is 1, the read of it succeeded, and
  the call \<^verbatim>\<open>err.Error()\<close> on the nil error panics.
\<close>

theorem decodeString_nonzero_padding_panics:
  "decodeString (str ''a'' @ [0, 1, 0]) = Panics NilDereference"
  by code_simp

text \<open>When the buffer ends inside the padding, \<^verbatim>\<open>ReadByte\<close> gives the byte 0 with
  \<^verbatim>\<open>io.EOF\<close>, the loop looks at the byte only, and the decode succeeds after two bytes.\<close>

lemma decodeString_short_padding:
  "decodeString (str ''a'' @ [0]) = Returns (str ''a'', None, [])"
  by code_simp

section \<open>Argument decoding (claims C4 and C5)\<close>

lemma readTag_Returns:
  assumes "readTag tag buf acc = Returns (acc', None, buf')"
  shows "\<exists>a. acc' = acc @ [a] \<and> (tag = of_char CHR ''F'' \<longrightarrow> a = ABool True)"
  using assms unfolding readTag_def
  by (auto split: if_splits prod.splits outcome.splits)

lemma readLoop_Returns:
  "readLoop tags buf acc = Returns (args, None, buf') \<Longrightarrow>
     \<exists>new. args = acc @ new \<and> length new = length tags \<and>
       (\<forall>i < length tags. tags ! i = of_char CHR ''F'' \<longrightarrow> new ! i = ABool True)"
proof (induction tags arbitrary: buf acc)
  case Nil
  then show ?case by simp
next
  case (Cons tag tags)
  from Cons.prems obtain acc1 buf1 where
    step: "readTag tag buf acc = Returns (acc1, None, buf1)"
    and rest: "readLoop tags buf1 acc1 = Returns (args, None, buf')"
    by (auto split: outcome.splits prod.splits option.splits)
  from readTag_Returns [OF step] obtain a where
    a: "acc1 = acc @ [a]" "tag = of_char CHR ''F'' \<longrightarrow> a = ABool True" by blast
  from Cons.IH [OF rest] obtain new where
    new: "args = acc1 @ new" "length new = length tags"
      "\<forall>i < length tags. tags ! i = of_char CHR ''F'' \<longrightarrow> new ! i = ABool True"
    by blast
  have "\<forall>i < length (tag # tags).
      (tag # tags) ! i = of_char CHR ''F'' \<longrightarrow> (a # new) ! i = ABool True"
  proof (intro allI impI)
    fix i assume i: "i < length (tag # tags)" and F: "(tag # tags) ! i = of_char CHR ''F''"
    show "(a # new) ! i = ABool True"
    proof (cases i)
      case 0
      with F a(2) show ?thesis by simp
    next
      case (Suc j)
      with i F new(3) show ?thesis by simp
    qed
  qed
  moreover have "args = acc @ (a # new)" using a(1) new(1) by simp
  moreover have "length (a # new) = length (tag # tags)" using new(2) by simp
  ultimately show ?case by blast
qed

text \<open>An error of the loop is always the malformed-argument error, with a nil list.\<close>

lemma readLoop_error_nil:
  "readLoop tags buf acc = Returns (args, Some e, buf') \<Longrightarrow>
     args = [] \<and> e = Errorf ''Found malformed argument''"
  by (induction tags arbitrary: buf acc) (auto split: outcome.splits prod.splits option.splits)

lemma readArguments_error_nil:
  "readArguments typeTagString buf = Returns (args, Some e, buf') \<Longrightarrow> args = []"
  by (auto simp: readArguments_def Let_def split: if_splits dest: readLoop_error_nil)

text \<open>
  Claim C4: a type tag string that does not begin with a comma, the empty string included,
  makes \<^verbatim>\<open>readArguments\<close> return a malformed-type-tag error rather than panic. The code
  slices \<^verbatim>\<open>typeTagString[:1]\<close> before it compares, which panics on the empty string; the
  packet \<^verbatim>\<open>"/\x00\x00\x00\x00\x00\x00\x00"\<close>, whose type tag string is empty, brings
  \<^verbatim>\<open>UnmarshalBinary\<close> there.
\<close>

theorem readArguments_empty_tag_panics:
  "readArguments [] buf = Panics SliceBounds \<and>
   Message_UnmarshalBinary msg (str ''/'' @ [0, 0, 0] @ [0, 0, 0, 0]) = Panics SliceBounds"
proof -
  have "Message_UnmarshalBinary msg (str ''/'' @ [0, 0, 0] @ [0, 0, 0, 0]) = Panics SliceBounds"
    by code_simp
  then show ?thesis by (simp add: readArguments_def)
qed

text \<open>
  Claim C5: when a decode succeeds on a type tag string that has the character \<^verbatim>\<open>F\<close> at some
  position after the comma, the argument produced for that position is the boolean
  \<open>True\<close>. The tag at index \<open>Suc i\<close> of the string belongs to the argument at index \<open>i\<close>.
\<close>

theorem readArguments_F_decodes_true:
  assumes "readArguments typeTagString buf = Returns (args, None, buf')"
    and "Suc i < length typeTagString"
    and "typeTagString ! Suc i = of_char CHR ''F''"
  shows "i < length args \<and> args ! i = ABool True"
proof -
  from assms(1) have loop: "readLoop (drop 1 typeTagString) buf [] = Returns (args, None, buf')"
    by (auto simp: readArguments_def Let_def split: if_splits)
  from assms(2) have i: "i < length (drop 1 typeTagString)" by simp
  from assms(2,3) have F: "drop 1 typeTagString ! i = of_char CHR ''F''" by simp
  from readLoop_Returns [OF loop] i F show ?thesis by auto
qed

theorem readArguments_F_decodes_true_witness:
  "readArguments (str '',iF'') [0, 0, 0, 7] = Returns ([AInt32 7, ABool True], None, []) \<and>
   Suc 1 < length (str '',iF'') \<and> str '',iF'' ! Suc 1 = of_char CHR ''F'' \<and>
   1 < length [AInt32 7, ABool True] \<and> [AInt32 7, ABool True] ! 1 = ABool True"
proof -
  have run: "readArguments (str '',iF'') [0, 0, 0, 7] = Returns ([AInt32 7, ABool True], None, [])"
    by code_simp
  have len: "Suc 1 < length (str '',iF'')" by (simp add: str_def)
  have tag: "str '',iF'' ! Suc 1 = of_char CHR ''F''" by (simp add: str_def)
  from readArguments_F_decodes_true [OF run len tag]
  have "1 < length [AInt32 7, ABool True] \<and> [AInt32 7, ABool True] ! 1 = ABool True" .
  with run len tag show ?thesis by blast
qed

section \<open>Packet decoding (claim C6)\<close>

text \<open>
  Claim C6: \<^verbatim>\<open>decodePacket\<close> returns an error for the empty input and for every input whose
  length is not a multiple of 4; a non-empty aligned input is decoded as a message when
  its first byte is \<^verbatim>\<open>/\<close> and as a bundle when it is \<^verbatim>\<open>#\<close> (the result of that decoder is
  the result, with a nil packet beside an error), and any other first byte is an error.
\<close>

theorem decodePacket_framing_and_dispatch:
  "(length data = 0 \<or> length data mod 4 \<noteq> 0 \<longrightarrow>
      decodePacket data = Returns (PNil, Some (Errorf ''Packet data is not a multiple of 4 bytes''))) \<and>
   (length data \<noteq> 0 \<and> length data mod 4 = 0 \<and> data ! 0 = of_char CHR ''/'' \<longrightarrow>
      decodePacket data =
        (case NewMessageFromData data of
           Panics p \<Rightarrow> Panics p
         | Returns (m, Some err) \<Rightarrow> Returns (PNil, Some err)
         | Returns (m, None) \<Rightarrow> Returns (PMessage m, None))) \<and>
   (length data \<noteq> 0 \<and> length data mod 4 = 0 \<and> data ! 0 = of_char CHR ''#'' \<longrightarrow>
      decodePacket data =
        (case NewBundleFromData data of
           Panics p \<Rightarrow> Panics p
         | Returns (b, Some err) \<Rightarrow> Returns (PNil, Some err)
         | Returns (b, None) \<Rightarrow> Returns (PBundle b, None))) \<and>
   (length data \<noteq> 0 \<and> length data mod 4 = 0 \<and> data ! 0 \<noteq> of_char CHR ''/'' \<and>
      data ! 0 \<noteq> of_char CHR ''#'' \<longrightarrow>
      decodePacket data = Returns (PNil, Some (Errorf ''Malformed packet'')))"
proof -
  have mod4: "int (length data) mod 4 = 0 \<longleftrightarrow> length data mod 4 = 0"
    by presburger
  show ?thesis
    unfolding decodePacket.simps [of data] Let_def mod4
    by simp
qed

theorem decodePacket_framing_and_dispatch_witness:
  "decodePacket [] = Returns (PNil, Some (Errorf ''Packet data is not a multiple of 4 bytes'')) \<and>
   decodePacket (str ''/ab'') = Returns (PNil, Some (Errorf ''Packet data is not a multiple of 4 bytes'')) \<and>
   decodePacket (str ''/'' @ [0, 0, 0] @ str '','' @ [0, 0, 0])
     = Returns (PMessage \<lparr>Address = str ''/'', Arguments = []\<rparr>, None) \<and>
   decodePacket (bundleString @ [0, 0, 0, 0, 0, 0, 0, 1]) = Returns (PBundle NewBundle, None) \<and>
   decodePacket (str ''abcd'') = Returns (PNil, Some (Errorf ''Malformed packet''))"
proof -
  have m: "NewMessageFromData (str ''/'' @ [0, 0, 0] @ str '','' @ [0, 0, 0])
      = Returns (\<lparr>Address = str ''/'', Arguments = []\<rparr>, None)"
    by code_simp
  have b: "NewBundleFromData (bundleString @ [0, 0, 0, 0, 0, 0, 0, 1]) = Returns (NewBundle, None)"
    by code_simp
  show ?thesis
    using decodePacket_framing_and_dispatch [of "[]"]
      decodePacket_framing_and_dispatch [of "str ''/ab''"]
      decodePacket_framing_and_dispatch [of "str ''/'' @ [0, 0, 0] @ str '','' @ [0, 0, 0]"]
      decodePacket_framing_and_dispatch [of "bundleString @ [0, 0, 0, 0, 0, 0, 0, 1]"]
      decodePacket_framing_and_dispatch [of "str ''abcd''"]
    using m b by (simp add: str_def bundleString_def)
qed

section \<open>Blob lengths with the high bit set (claim C10)\<close>

lemma bit31_iff: "bit (w :: 32 word) 31 \<longleftrightarrow> 0x80000000 \<le> w"
proof -
  have "bit w 31 \<longleftrightarrow> bit (unat w) 31" by (simp add: bit_unsigned_iff)
  also have "\<dots> \<longleftrightarrow> odd (unat w div 2 ^ 31)" by (simp add: bit_iff_odd)
  also have "\<dots> \<longleftrightarrow> 2 ^ 31 \<le> unat w"
  proof -
    have "unat w < 2 ^ 32" using unsigned_less [of w] by simp
    then have "unat w div 2 ^ 31 = (if 2 ^ 31 \<le> unat w then 1 else 0)" by auto
    then show ?thesis by simp
  qed
  also have "\<dots> \<longleftrightarrow> 0x80000000 \<le> w" by (simp add: word_le_nat_alt)
  finally show ?thesis .
qed

lemma sint_neg_iff: "sint (w :: 32 word) < 0 \<longleftrightarrow> 0x80000000 \<le> w"
  using bit_last_iff [of w] bit31_iff [of w] by simp

lemma and_not_3_small:
  assumes "(w :: 32 word) < 3"
  shows "w AND NOT 3 = 0"
proof -
  from assms have "w = 0 \<or> w = 1 \<or> w = 2" by unat_arith
  then show ?thesis by auto
qed

lemma add3_wraps: "0x80000000 \<le> (n :: 32 word) \<Longrightarrow> n + 3 < 0x80000000 \<Longrightarrow> n + 3 < 3"
  by unat_arith

text \<open>A negative \<open>n\<close> for which \<^verbatim>\<open>(n + 3) &^ 0x03\<close> is not negative is -3, -2 or -1, and the
  rounded length is 0.\<close>

lemma negative_length_expected:
  fixes n :: "32 word"
  assumes "sint n < 0" and "\<not> sint ((n + 3) AND NOT 3) < 0"
  shows "(n + 3) AND NOT 3 = 0"
proof -
  from assms(1) have n: "0x80000000 \<le> n" by (simp add: sint_neg_iff)
  from assms(2) have "\<not> bit ((n + 3) AND NOT 3) 31"
    using bit_last_iff [of "(n + 3) AND NOT 3"] by simp
  then have "\<not> bit (n + 3) 31" by (simp add: bit_simps)
  then have "n + 3 < 0x80000000" by (simp add: bit31_iff not_le)
  with n have "n + 3 < 3" by (rule add3_wraps)
  then show ?thesis by (rule and_not_3_small)
qed

lemma Uint32_msb: "length buf \<ge> 4 \<Longrightarrow> bit (Uint32 (take 4 buf)) 31 = bit (buf ! 0) 7"
  by (auto simp add: Uint32_def bit_simps dest: bit_imp_le_length)

text \<open>
  Claim C10: there is an input on which \<^verbatim>\<open>decodeByteSlice\<close> panics instead of returning an
  error. A length field with its high bit set is read as a negative \<^verbatim>\<open>int32\<close>; for
  \<^verbatim>\<open>80 00 00 00\<close> the allocation \<^verbatim>\<open>make([]byte, nExpected)\<close> of negative size panics, and
  every buffer whose length field has the high bit set panics (in the allocation, or for
  the lengths -3, -2 and -1 in the slice expression \<^verbatim>\<open>data[:n]\<close>). Message and packet
  decoding reach it on bytes from outside.
\<close>

theorem decodeByteSlice_negative_length_panics:
  "decodeByteSlice [0x80, 0, 0, 0] = Panics MakeSliceLen \<and>
   (\<forall>buf. 4 \<le> length buf \<and> bit (buf ! 0) 7 \<longrightarrow> (\<exists>p. decodeByteSlice buf = Panics p)) \<and>
   Message_UnmarshalBinary msg (str ''/'' @ [0, 0, 0] @ str '',b'' @ [0, 0] @ [0x80, 0, 0, 0])
     = Panics MakeSliceLen \<and>
   decodePacket (str ''/'' @ [0, 0, 0] @ str '',b'' @ [0, 0] @ [0x80, 0, 0, 0])
     = Panics MakeSliceLen"
proof -
  have one: "decodeByteSlice [0x80, 0, 0, 0] = Panics MakeSliceLen" by code_simp
  have msg: "Message_UnmarshalBinary msg
      (str ''/'' @ [0, 0, 0] @ str '',b'' @ [0, 0] @ [0x80, 0, 0, 0]) = Panics MakeSliceLen"
    by code_simp
  have pkt: "decodePacket (str ''/'' @ [0, 0, 0] @ str '',b'' @ [0, 0] @ [0x80, 0, 0, 0])
      = Panics MakeSliceLen"
    by code_simp
  have all: "\<exists>p. decodeByteSlice buf = Panics p"
    if len: "4 \<le> length buf" and hi: "bit (buf ! 0) 7" for buf
  proof -
    define n where "n = Uint32 (take 4 buf)"
    from len have rd: "binary_Read32 buf = (n, None, drop 4 buf)"
      by (simp add: binary_Read32_def ReadFull_def n_def)
    from len hi have "bit n 31" by (simp add: n_def Uint32_msb)
    then have neg: "sint n < 0" using bit_last_iff [of n] by simp
    then have nz: "n \<noteq> 0" by auto
    show ?thesis
    proof (cases "sint ((n + 3) AND NOT 3) < 0")
      case True
      with rd nz show ?thesis by (simp add: decodeByteSlice_def)
    next
      case False
      with neg have "(n + 3) AND NOT 3 = 0" by (rule negative_length_expected)
      with rd nz neg show ?thesis
        by (simp add: decodeByteSlice_def Read_def Let_def)
    qed
  qed
  from one msg pkt all show ?thesis by blast
qed

theorem decodeByteSlice_negative_length_panics_witness:
  "4 \<le> length [0xFF, 0xFF, 0xFF, 0xFF :: byte] \<and> bit ([0xFF, 0xFF, 0xFF, 0xFF :: byte] ! 0) 7 \<and>
   (\<exists>p. decodeByteSlice [0xFF, 0xFF, 0xFF, 0xFF] = Panics p)"
  using decodeByteSlice_negative_length_panics [of undefined]
  by (simp add: bit_simps)

section \<open>Time tag round trip (claim C7)\<close>

lemma Uint64_PutUint64: "Uint64 (take 8 (PutUint64 v @ rest)) = v"
proof (rule bit_word_eqI)
  fix n assume "n < LENGTH(64)"
  then consider "n < 8" | "8 \<le> n" "n < 16" | "16 \<le> n" "n < 24" | "24 \<le> n" "n < 32"
     | "32 \<le> n" "n < 40" | "40 \<le> n" "n < 48" | "48 \<le> n" "n < 56" | "56 \<le> n" "n < 64"
    by fastforce
  then show "bit (Uint64 (take 8 (PutUint64 v @ rest))) n = bit v n"
    by cases (auto simp add: Uint64_def PutUint64_def bit_simps)
qed

lemma binary_Read64_Put: "binary_Read64 (PutUint64 v @ rest) = (v, None, rest)"
  using Uint64_PutUint64 [of v rest]
  by (simp add: binary_Read64_def ReadFull_def) (simp add: PutUint64_def)

lemma mask32: "(0xFFFFFFFF :: 64 word) = mask 32"
  by (simp add: mask_eq_exp_minus_1)

lemma hi_of_cat:
  "drop_bit 32 (push_bit 32 (take_bit 32 A) OR take_bit 32 B) = take_bit 32 (A :: 64 word)"
  by (rule bit_word_eqI) (auto simp add: bit_simps)

lemma lo_of_cat:
  "(push_bit 32 (take_bit 32 A) OR take_bit 32 B) AND mask 32 = take_bit 32 (B :: 64 word)"
  by (rule bit_word_eqI) (auto simp add: bit_simps)

lemma take_bit_32_of_int:
  "0 \<le> k \<Longrightarrow> k < 2 ^ 32 \<Longrightarrow> take_bit 32 (word_of_int k :: 64 word) = word_of_int k"
  by (simp add: take_bit_of_int take_bit_int_eq_self)

lemma sint_of_int_64:
  "- (2 ^ 63) \<le> k \<Longrightarrow> k < 2 ^ 63 \<Longrightarrow> sint (word_of_int k :: 64 word) = k"
  by (simp add: signed_of_int signed_take_bit_int_eq_self)

lemma of_int_eq_small:
  "0 \<le> k \<Longrightarrow> k < 2 ^ 64 \<Longrightarrow> 0 \<le> l \<Longrightarrow> l < 2 ^ 64 \<Longrightarrow>
     (word_of_int k :: 64 word) = word_of_int l \<longleftrightarrow> k = l"
  by (simp add: word_of_int_eq_iff take_bit_int_eq_self)


lemma timeTag64_value:
  assumes "0 \<le> tnsec t" "tnsec t < 1000000000"
    and "0 \<le> tsec t + 2208988800" "tsec t + 2208988800 < 2 ^ 32"
  shows "push_bit 32 (Unix t + unixOSCEpochOffset) OR
           (((UnixNano t + unixOSCEpochOffset * nanosPerSecond)
              - (Unix t + unixOSCEpochOffset) * nanosPerSecond) AND 0xFFFFFFFF)
         = push_bit 32 (take_bit 32 (word_of_int (tsec t + 2208988800)))
             OR take_bit 32 (word_of_int (tnsec t))"
proof -
  have secs: "Unix t + unixOSCEpochOffset = word_of_int (tsec t + 2208988800)"
    by (simp add: Unix_def unixOSCEpochOffset_def)
  have nanos: "(UnixNano t + unixOSCEpochOffset * nanosPerSecond)
      - (Unix t + unixOSCEpochOffset) * nanosPerSecond = word_of_int (tnsec t)"
    by (simp add: UnixNano_def nanosPerSecond_def unixOSCEpochOffset_def algebra_simps)
  have ns: "tnsec t < 2 ^ 32" using assms(2) by simp
  show ?thesis
    apply (subst nanos)
    apply (simp only: secs mask32 take_bit_32_of_int [OF assms(3,4)])
    apply (simp add: take_bit_eq_mask)
    done
qed

lemma immediate_timeTag_codec:
  assumes "Immediate tt"
  shows "encodeTimeTag tt = [0, 0, 0, 0, 0, 0, 0, 1] \<and>
    decodeTimeTag (encodeTimeTag tt @ rest) = (NewImmediateTimeTag, None, rest)"
proof -
  from assms have enc: "encodeTimeTag tt = PutUint64 1"
    by (simp add: encodeTimeTag_def timeTagImmediate_def)
  have "encodeTimeTag tt = [0, 0, 0, 0, 0, 0, 0, 1]"
    unfolding enc by (simp add: PutUint64_def)
  moreover have "decodeTimeTag (encodeTimeTag tt @ rest) = (NewImmediateTimeTag, None, rest)"
    unfolding enc by (simp add: decodeTimeTag_def binary_Read64_Put timeTagImmediate_def)
  ultimately show ?thesis by simp
qed

lemma timeTag_restored:
  assumes a: "\<not> Immediate tt \<and> tloc (time tt) = UTC \<and> tmono (time tt) = None \<and>
    0 \<le> tnsec (time tt) \<and> tnsec (time tt) < 1000000000 \<and>
    0 \<le> tsec (time tt) + 2208988800 \<and> tsec (time tt) + 2208988800 < 2 ^ 32 \<and>
    \<not> (tsec (time tt) = - 2208988800 \<and> tnsec (time tt) = 1)"
  shows "decodeTimeTag (encodeTimeTag tt @ rest) = (tt, None, rest)"
proof -
  define S where "S = tsec (time tt) + 2208988800"
  define ns where "ns = tnsec (time tt)"
  define v :: "64 word" where
    "v = push_bit 32 (take_bit 32 (word_of_int S)) OR take_bit 32 (word_of_int ns)"
  from a have S: "0 \<le> S" "S < 2 ^ 32" and ns: "0 \<le> ns" "ns < 1000000000"
    and notimm: "\<not> (S = 0 \<and> ns = 1)"
    by (auto simp: S_def ns_def)
  from ns have ns32: "ns < 2 ^ 32" by simp
  from a have enc: "encodeTimeTag tt = PutUint64 v"
    using timeTag64_value [of "time tt"]
    by (simp add: encodeTimeTag_def v_def S_def ns_def Let_def)
  have hi: "drop_bit 32 v = word_of_int S"
    unfolding v_def hi_of_cat by (rule take_bit_32_of_int [OF S])
  have lo: "v AND 0xFFFFFFFF = word_of_int ns"
    unfolding v_def mask32 lo_of_cat by (rule take_bit_32_of_int [OF ns(1) ns32])
  have "v \<noteq> 1"
  proof
    assume "v = 1"
    with hi lo have e: "(word_of_int S :: 64 word) = word_of_int 0"
      "(word_of_int ns :: 64 word) = word_of_int 1"
      by (simp_all add: drop_bit_eq_div)
    from S e(1) have "S = 0"
      by (subst (asm) of_int_eq_small) simp_all
    moreover from ns(1) ns32 e(2) have "ns = 1"
      by (subst (asm) of_int_eq_small) simp_all
    ultimately show False using notimm by simp
  qed
  moreover have "sint (drop_bit 32 v - unixOSCEpochOffset) = tsec (time tt)"
  proof -
    have "drop_bit 32 v - unixOSCEpochOffset = word_of_int (tsec (time tt))"
      unfolding hi by (simp add: S_def unixOSCEpochOffset_def)
    moreover from S have "- (2 ^ 63) \<le> tsec (time tt)" "tsec (time tt) < 2 ^ 63"
      by (simp_all add: S_def)
    ultimately show ?thesis by (simp add: sint_of_int_64)
  qed
  moreover have "sint (v AND 0xFFFFFFFF) = ns"
    unfolding lo using ns by (simp add: sint_of_int_64)
  moreover have "In (time_Unix (tsec (time tt)) ns) UTC = time tt"
    using a ns by (simp add: In_def time_Unix_def ns_def)
  ultimately show ?thesis
    using a unfolding enc
    by (simp add: decodeTimeTag_def binary_Read64_Put timeTagImmediate_def NewTimeTag_def Let_def)
qed

text \<open>
  Claim C7, as amended. An immediate time tag encodes to exactly the bytes
  \<^verbatim>\<open>00 00 00 00 00 00 00 01\<close> and decodes to \<^verbatim>\<open>NewImmediateTimeTag()\<close>. A time tag that is not
  immediate is restored by decoding its encoding when its time is in UTC without a
  monotonic clock reading, its seconds since 1900 fit the 32 bits of the wire format, and it
  is not the instant one nanosecond after the OSC epoch, whose encoding is the immediate
  value 1.
\<close>

theorem timeTag_roundtrip:
  "(Immediate tt \<longrightarrow>
      encodeTimeTag tt = [0, 0, 0, 0, 0, 0, 0, 1] \<and>
      decodeTimeTag (encodeTimeTag tt @ rest) = (NewImmediateTimeTag, None, rest)) \<and>
   (\<not> Immediate tt \<and> tloc (time tt) = UTC \<and> tmono (time tt) = None \<and>
    0 \<le> tnsec (time tt) \<and> tnsec (time tt) < 1000000000 \<and>
    0 \<le> tsec (time tt) + 2208988800 \<and> tsec (time tt) + 2208988800 < 2 ^ 32 \<and>
    \<not> (tsec (time tt) = - 2208988800 \<and> tnsec (time tt) = 1) \<longrightarrow>
      decodeTimeTag (encodeTimeTag tt @ rest) = (tt, None, rest))"
  using immediate_timeTag_codec [of tt rest] timeTag_restored [of tt rest] by blast

text \<open>
  Claim C7 as stated (every time tag is restored) fails: the time tag of
  1900-01-01T00:00:00.000000001Z, built by \<^verbatim>\<open>NewTimeTag\<close>, encodes to the immediate value and
  comes back as the immediate time tag.
\<close>

theorem timeTag_roundtrip_counterexample:
  "fst (decodeTimeTag (encodeTimeTag
      (NewTimeTag \<lparr>tsec = - 2208988800, tnsec = 1, tmono = None, tloc = UTC\<rparr>)))
   \<noteq> NewTimeTag \<lparr>tsec = - 2208988800, tnsec = 1, tmono = None, tloc = UTC\<rparr>"
  by code_simp

text \<open>Two more time tags that are not restored: an immediate one that carries a time, and
  one after 2036-02-07T06:28:15Z, whose seconds since 1900 need more than 32 bits.\<close>

lemma timeTag_immediate_with_time_not_restored:
  "fst (decodeTimeTag (encodeTimeTag
      \<lparr>time = \<lparr>tsec = 1514764800, tnsec = 0, tmono = None, tloc = UTC\<rparr>, Immediate = True\<rparr>))
   \<noteq> \<lparr>time = \<lparr>tsec = 1514764800, tnsec = 0, tmono = None, tloc = UTC\<rparr>, Immediate = True\<rparr>"
  by code_simp

lemma timeTag_after_2036_not_restored:
  "fst (decodeTimeTag (encodeTimeTag
      (NewTimeTag \<lparr>tsec = 2085978496, tnsec = 0, tmono = None, tloc = UTC\<rparr>)))
   = NewTimeTag \<lparr>tsec = - 2208988800, tnsec = 0, tmono = None, tloc = UTC\<rparr>"
  by code_simp

theorem timeTag_roundtrip_witness:
  "encodeTimeTag NewImmediateTimeTag = [0, 0, 0, 0, 0, 0, 0, 1] \<and>
   decodeTimeTag (encodeTimeTag NewImmediateTimeTag @ []) = (NewImmediateTimeTag, None, []) \<and>
   decodeTimeTag (encodeTimeTag
       (NewTimeTag \<lparr>tsec = 1514764800, tnsec = 500000000, tmono = None, tloc = UTC\<rparr>) @ [])
     = (NewTimeTag \<lparr>tsec = 1514764800, tnsec = 500000000, tmono = None, tloc = UTC\<rparr>, None, [])"
proof -
  let ?tt = "NewTimeTag \<lparr>tsec = 1514764800, tnsec = 500000000, tmono = None, tloc = UTC\<rparr>"
  have i: "Immediate NewImmediateTimeTag" by (simp add: NewImmediateTimeTag_def)
  have h: "\<not> Immediate ?tt \<and> tloc (time ?tt) = UTC \<and> tmono (time ?tt) = None \<and>
    0 \<le> tnsec (time ?tt) \<and> tnsec (time ?tt) < 1000000000 \<and>
    0 \<le> tsec (time ?tt) + 2208988800 \<and> tsec (time ?tt) + 2208988800 < 2 ^ 32 \<and>
    \<not> (tsec (time ?tt) = - 2208988800 \<and> tnsec (time ?tt) = 1)"
    by (simp add: NewTimeTag_def)
  from timeTag_roundtrip [of NewImmediateTimeTag "[]"] i timeTag_roundtrip [of ?tt "[]"] h
  show ?thesis by blast
qed

section \<open>Strings on the wire\<close>

lemma Trim0_terminated: "0 \<notin> set s \<Longrightarrow> Trim0 (s @ [0]) = s"
proof (cases s rule: rev_cases)
  case Nil
  then show ?thesis by (simp add: Trim0_def)
next
  case (snoc ys y)
  assume "0 \<notin> set s"
  with snoc have y: "y \<noteq> 0" and ys: "0 \<notin> set ys" by auto
  have "dropWhile (\<lambda>b. b = 0) (s @ [0]) = s @ [0]"
  proof (cases s)
    case Nil
    with snoc show ?thesis by simp
  next
    case (Cons a as)
    with \<open>0 \<notin> set s\<close> have "a \<noteq> 0" by auto
    with Cons show ?thesis by simp
  qed
  with snoc y show ?thesis by (simp add: Trim0_def)
qed

lemma ReadString_terminated:
  "0 \<notin> set s \<Longrightarrow> ReadString (s @ 0 # rest) 0 = (s @ [0], None, rest)"
proof -
  assume s: "0 \<notin> set s"
  then have "dropWhile (\<lambda>b. b \<noteq> 0) (s @ 0 # rest) = 0 # rest"
    by (induction s) auto
  moreover from s have "takeWhile (\<lambda>b. b \<noteq> 0) (s @ 0 # rest) = s"
    by (induction s) auto
  ultimately show ?thesis by (simp add: ReadString_def)
qed

lemma ReadString_Returns:
  assumes "ReadString buf 0 = (snt, None, buf1)"
  shows "\<exists>s. 0 \<notin> set s \<and> snt = s @ [0] \<and> buf = s @ 0 # buf1"
proof -
  let ?s = "takeWhile (\<lambda>b. b \<noteq> 0) buf"
  from assms obtain d where d: "dropWhile (\<lambda>b. b \<noteq> 0) buf = d # buf1" and snt: "snt = ?s @ [d]"
    by (auto simp: ReadString_def split: list.splits)
  from d have "d = 0" using hd_dropWhile [of "\<lambda>b. b \<noteq> 0" buf] by auto
  moreover have "0 \<notin> set ?s" by (auto dest: set_takeWhileD)
  moreover have "buf = ?s @ dropWhile (\<lambda>b. b \<noteq> 0) buf" by simp
  ultimately show ?thesis using d snt by metis
qed

lemma int_align4: "(x::int) AND NOT 3 = 4 * (x div 4)"
proof -
  have "x AND NOT (mask 2) = push_bit 2 (drop_bit 2 x)"
  proof (rule bit_eqI)
    fix n
    have "Suc (Suc (n - 2)) = n" if "\<not> n < 2" using that by simp
    then show "bit (x AND NOT (mask 2)) n = bit (push_bit 2 (drop_bit 2 x)) n"
      by (cases "n < 2") (auto simp add: bit_simps)
  qed
  then show ?thesis by (simp add: push_bit_eq_mult drop_bit_eq_div mask_eq_exp_minus_1)
qed

lemma popPadding_0: "toPop \<le> 0 \<Longrightarrow> popPadding toPop buf = Returns (None, buf)"
  by (simp add: popPadding.simps)

lemma decodeString_aligned:
  assumes "0 \<notin> set s" and "length s mod 4 = 3"
  shows "decodeString (s @ 0 # rest) = Returns (s, None, rest)"
proof -
  have "int (length s) mod 4 = 3" using assms(2) by presburger
  then have "(int (length s) + 1 + 3) AND NOT 3 = int (length s) + 1"
    unfolding int_align4 by presburger
  then show ?thesis
    using assms(1)
    by (simp add: decodeString_def ReadString_terminated Trim0_terminated popPadding_0 Let_def)
qed

lemma decodeString_Returns_aligned:
  assumes "decodeString buf = Returns (s, None, buf')" and "length s mod 4 = 3"
  shows "buf = s @ 0 # buf'"
proof -
  from assms(1) obtain snt buf1 where rs: "ReadString buf 0 = (snt, None, buf1)"
    by (auto simp: decodeString_def Let_def split: prod.splits option.splits)
  from ReadString_Returns [OF rs] obtain s' where
    s': "0 \<notin> set s'" "snt = s' @ [0]" "buf = s' @ 0 # buf1" by blast
  from assms(1) rs s'(1,2) have eq: "s = s'"
    and pp: "popPadding (((int (length snt) + 3) AND NOT 3) - int (length snt)) buf1
      = Returns (None, buf')"
    by (auto simp: decodeString_def Let_def Trim0_terminated
        split: outcome.splits prod.splits option.splits)
  from assms(2) eq s'(2) have "int (length snt) mod 4 = 0" by simp presburger
  then have "((int (length snt) + 3) AND NOT 3) - int (length snt) = 0"
    unfolding int_align4 by presburger
  with pp have "buf1 = buf'" by (simp add: popPadding_0)
  with s'(3) eq show ?thesis by simp
qed


section \<open>Bundle decoding (claim C8)\<close>

lemma decodeTimeTag_enough:
  "8 \<le> length buf \<Longrightarrow> decodeTimeTag buf = (fst (decodeTimeTag buf), None, drop 8 buf)"
  by (simp add: decodeTimeTag_def binary_Read64_def ReadFull_def Let_def)

lemma decodeTimeTag_Returns:
  "decodeTimeTag buf = (tt, None, buf') \<Longrightarrow> 8 \<le> length buf \<and> buf' = drop 8 buf"
  by (auto simp add: decodeTimeTag_def binary_Read64_def ReadFull_def Let_def split: if_splits)

lemma bundle_identifier: "length (str ''#bundle'') mod 4 = 3" "0 \<notin> set (str ''#bundle'')"
  by (simp_all add: str_def)

lemma Bundle_UnmarshalBinary_header:
  assumes "take 8 data = bundleString" and "16 \<le> length data"
  shows "Bundle_UnmarshalBinary bun data =
     (case bundleLoop (drop 16 data) [] of
        Panics p \<Rightarrow> Panics p
      | Returns (elements, Some err) \<Rightarrow> Returns (bun, Some err)
      | Returns (elements, None) \<Rightarrow>
          Returns (Bundle (fst (decodeTimeTag (drop 8 data))) elements, None))"
proof -
  have data: "bundleString @ drop 8 data = data"
    using append_take_drop_id [of 8 data] unfolding assms(1) .
  have "decodeString (str ''#bundle'' @ 0 # drop 8 data)
      = Returns (str ''#bundle'', None, drop 8 data)"
    by (rule decodeString_aligned [OF bundle_identifier(2,1)])
  then have "decodeString (bundleString @ drop 8 data)
      = Returns (str ''#bundle'', None, drop 8 data)"
    by (simp add: bundleString_def)
  then have ds: "decodeString data = Returns (str ''#bundle'', None, drop 8 data)"
    unfolding data .
  define timeTag where "timeTag = fst (decodeTimeTag (drop 8 data))"
  from assms(2) have tt: "decodeTimeTag (drop 8 data) = (timeTag, None, drop 16 data)"
    using decodeTimeTag_enough [of "drop 8 data"] unfolding timeTag_def by simp
  have "Bundle_UnmarshalBinary bun data =
     (case bundleLoop (drop 16 data) [] of
        Panics p \<Rightarrow> Panics p
      | Returns (elements, Some err) \<Rightarrow> Returns (bun, Some err)
      | Returns (elements, None) \<Rightarrow> Returns (Bundle timeTag elements, None))"
    by (subst Bundle_UnmarshalBinary.simps) (simp add: ds tt)
  then show ?thesis unfolding timeTag_def .
qed

lemma Bundle_UnmarshalBinary_Returns:
  assumes "Bundle_UnmarshalBinary bun data = Returns (bun', None)"
  shows "take 8 data = bundleString \<and> 16 \<le> length data"
proof -
  from assms obtain buf where ds: "decodeString data = Returns (str ''#bundle'', None, buf)"
    by (subst (asm) Bundle_UnmarshalBinary.simps)
      (auto split: outcome.splits prod.splits option.splits if_splits)
  from decodeString_Returns_aligned [OF ds bundle_identifier(1)]
  have data: "data = str ''#bundle'' @ 0 # buf" .
  from assms ds obtain tt buf1 where "decodeTimeTag buf = (tt, None, buf1)"
    by (subst (asm) Bundle_UnmarshalBinary.simps)
      (auto split: outcome.splits prod.splits option.splits if_splits)
  then have "8 \<le> length buf" by (simp add: decodeTimeTag_Returns)
  with data show ?thesis by (simp add: bundleString_def str_def)
qed

lemma Bundle_UnmarshalBinary_error:
  assumes "Bundle_UnmarshalBinary bun data = Returns (bun', Some err)"
  shows "bun' = bun"
  using assms
  by (subst (asm) Bundle_UnmarshalBinary.simps)
    (auto split: outcome.splits prod.splits option.splits if_splits)

lemma bundleLoop_short_header:
  "0 < length buf \<Longrightarrow> length buf < 4 \<Longrightarrow>
     bundleLoop buf elements = Returns (elements, Some ErrUnexpectedEOF)"
  by (subst bundleLoop.simps) (auto simp add: binary_Read32_def ReadFull_def)

lemma bundleLoop_short_child:
  assumes "4 \<le> length buf" and "length buf - 4 < unat (Uint32 (take 4 buf))"
  shows "bundleLoop buf elements = Returns (elements, Some (Errorf ''Malformed bundle''))"
proof -
  let ?count = "Uint32 (take 4 buf)"
  from assms(1) have rd: "binary_Read32 buf = (?count, None, drop 4 buf)"
    by (simp add: binary_Read32_def ReadFull_def)
  have "(word_of_nat (length buf - 4) :: 32 word) \<noteq> ?count"
  proof
    assume "(word_of_nat (length buf - 4) :: 32 word) = ?count"
    then have "unat (word_of_nat (length buf - 4) :: 32 word) = unat ?count" by simp
    moreover have "unat ?count < 2 ^ 32" using unsigned_less [of ?count] by simp
    ultimately show False using assms(2) by (simp add: unat_of_nat)
  qed
  with assms rd show ?thesis
    by (subst bundleLoop.simps) (auto simp add: Read_def Let_def min_def)
qed

lemma bundleLoop_child:
  assumes "4 \<le> length buf" and "unat (Uint32 (take 4 buf)) \<le> length buf - 4"
  shows "bundleLoop buf elements =
     (case decodePacket (take (unat (Uint32 (take 4 buf))) (drop 4 buf)) of
        Panics p \<Rightarrow> Panics p
      | Returns (p, Some err) \<Rightarrow> Returns (elements, Some err)
      | Returns (p, None) \<Rightarrow>
          bundleLoop (drop (4 + unat (Uint32 (take 4 buf))) buf) (elements @ [p]))"
proof -
  let ?count = "Uint32 (take 4 buf)"
  from assms(1) have rd: "binary_Read32 buf = (?count, None, drop 4 buf)"
    by (simp add: binary_Read32_def ReadFull_def)
  have cnt: "(word_of_nat (unat ?count) :: 32 word) = ?count" by simp
  from assms have "Read (drop 4 buf) (replicate (unat ?count) 0) =
      (take (unat ?count) (drop 4 buf), unat ?count, None, drop (4 + unat ?count) buf)"
    by (auto simp add: Read_def Let_def min_def add.commute)
  with rd cnt show ?thesis
    by (subst bundleLoop.simps) simp
qed


text \<open>
  The steps of the bundle decoder. A decode that succeeds has verified the identifier
  \<^verbatim>\<open>"#bundle\x00"\<close> in the first 8 bytes and read the time tag from the next 8. After such a
  header the result is that of the loop over the remaining bytes. In the loop, the end of
  the buffer where a length would start is the normal end; a length that is cut short, or
  that exceeds the bytes left (a short child read), is an error; otherwise exactly that many
  bytes are decoded by \<^verbatim>\<open>decodePacket\<close>, an error value of the child is the error of the loop,
  a panic of the child is a panic of the loop, and a decoded child is appended before the
  loop goes on behind it. Beside an error the receiver is returned as it was.
\<close>

lemma Bundle_UnmarshalBinary_loop:
  "(\<forall>bun'. Bundle_UnmarshalBinary bun data = Returns (bun', None) \<longrightarrow>
      take 8 data = bundleString \<and> 16 \<le> length data) \<and>
   (take 8 data = bundleString \<and> 16 \<le> length data \<longrightarrow>
      Bundle_UnmarshalBinary bun data =
        (case bundleLoop (drop 16 data) [] of
           Panics p \<Rightarrow> Panics p
         | Returns (els, Some err) \<Rightarrow> Returns (bun, Some err)
         | Returns (els, None) \<Rightarrow>
             Returns (Bundle (fst (decodeTimeTag (drop 8 data))) els, None))) \<and>
   bundleLoop [] elements = Returns (elements, None) \<and>
   (0 < length buf \<and> length buf < 4 \<longrightarrow>
      bundleLoop buf elements = Returns (elements, Some ErrUnexpectedEOF)) \<and>
   (4 \<le> length buf \<and> length buf - 4 < unat (Uint32 (take 4 buf)) \<longrightarrow>
      bundleLoop buf elements = Returns (elements, Some (Errorf ''Malformed bundle''))) \<and>
   (4 \<le> length buf \<and> unat (Uint32 (take 4 buf)) \<le> length buf - 4 \<longrightarrow>
      bundleLoop buf elements =
        (case decodePacket (take (unat (Uint32 (take 4 buf))) (drop 4 buf)) of
           Panics p \<Rightarrow> Panics p
         | Returns (p, Some err) \<Rightarrow> Returns (elements, Some err)
         | Returns (p, None) \<Rightarrow>
             bundleLoop (drop (4 + unat (Uint32 (take 4 buf))) buf) (elements @ [p]))) \<and>
   (\<forall>bun' err. Bundle_UnmarshalBinary bun data = Returns (bun', Some err) \<longrightarrow> bun' = bun)"
proof -
  have eof: "bundleLoop [] elements = Returns (elements, None)"
    by (subst bundleLoop.simps) (simp add: binary_Read32_def ReadFull_def)
  show ?thesis
    using Bundle_UnmarshalBinary_Returns [of bun data] Bundle_UnmarshalBinary_header [of data bun]
      eof bundleLoop_short_header [of buf elements] bundleLoop_short_child [of buf elements]
      bundleLoop_child [of buf elements] Bundle_UnmarshalBinary_error [of bun data]
    by blast
qed


lemma Bundle_UnmarshalBinary_loop_examples:
  "Bundle_UnmarshalBinary NewBundle bundleWithMessageAndBundle =
     Returns (Bundle NewImmediateTimeTag
       [PMessage \<lparr>Address = str ''/foo'', Arguments = [ABlob (str ''arg'')]\<rparr>, PBundle NewBundle], None) \<and>
   take 8 bundleWithMessageAndBundle = bundleString \<and> 16 \<le> length bundleWithMessageAndBundle \<and>
   bundleLoop (drop 16 bundleWithMessageAndBundle) [] =
     Returns ([PMessage \<lparr>Address = str ''/foo'', Arguments = [ABlob (str ''arg'')]\<rparr>, PBundle NewBundle], None) \<and>
   bundleLoop [0, 0] [PNil] = Returns ([PNil], Some ErrUnexpectedEOF) \<and>
   bundleLoop [0, 0, 0, 8, 1, 2, 3, 4] [PNil] = Returns ([PNil], Some (Errorf ''Malformed bundle'')) \<and>
   bundleLoop ([0, 0, 0, 4] @ str ''abcd'') [PNil] = Returns ([PNil], Some (Errorf ''Malformed packet'')) \<and>
   Bundle_UnmarshalBinary NewBundle (bundleString @ [0, 0, 0, 0, 0, 0, 0, 1] @ [0, 0, 0, 4] @ str ''abcd'')
     = Returns (NewBundle, Some (Errorf ''Malformed packet''))"
proof -
  let ?els = "[PMessage \<lparr>Address = str ''/foo'', Arguments = [ABlob (str ''arg'')]\<rparr>, PBundle NewBundle]"
  let ?bad = "bundleString @ [0, 0, 0, 0, 0, 0, 0, 1] @ [0, 0, 0, 4] @ str ''abcd''"
  have run: "Bundle_UnmarshalBinary NewBundle bundleWithMessageAndBundle =
      Returns (Bundle NewImmediateTimeTag ?els, None)"
    by code_simp
  have bad: "Bundle_UnmarshalBinary NewBundle ?bad = Returns (NewBundle, Some (Errorf ''Malformed packet''))"
    by code_simp
  have child: "decodePacket (take (unat (Uint32 (take 4 ([0, 0, 0, 4] @ str ''abcd''))))
      (drop 4 ([0, 0, 0, 4] @ str ''abcd''))) = Returns (PNil, Some (Errorf ''Malformed packet''))"
    by code_simp
  have h1: "0 < length [0, 0 :: byte] \<and> length [0, 0 :: byte] < 4" by simp
  have h2: "4 \<le> length [0, 0, 0, 8, 1, 2, 3, 4 :: byte] \<and>
      length [0, 0, 0, 8, 1, 2, 3, 4 :: byte] - 4 < unat (Uint32 (take 4 [0, 0, 0, 8, 1, 2, 3, 4]))"
    by (simp add: Uint32_def)
  have h3: "4 \<le> length ([0, 0, 0, 4] @ str ''abcd'') \<and>
      unat (Uint32 (take 4 ([0, 0, 0, 4] @ str ''abcd''))) \<le> length ([0, 0, 0, 4] @ str ''abcd'') - 4"
    by (simp add: Uint32_def str_def)
  note A = Bundle_UnmarshalBinary_loop
    [where bun = NewBundle and data = bundleWithMessageAndBundle and buf = "[0, 0]" and elements = "[PNil]"]
  note B = Bundle_UnmarshalBinary_loop
    [where bun = NewBundle and data = ?bad and buf = "[0, 0, 0, 8, 1, 2, 3, 4]" and elements = "[PNil]"]
  note C = Bundle_UnmarshalBinary_loop
    [where bun = NewBundle and data = ?bad and buf = "[0, 0, 0, 4] @ str ''abcd''" and elements = "[PNil]"]
  from A run have hdr: "take 8 bundleWithMessageAndBundle = bundleString \<and>
      16 \<le> length bundleWithMessageAndBundle" by blast
  with A have eq: "Bundle_UnmarshalBinary NewBundle bundleWithMessageAndBundle =
      (case bundleLoop (drop 16 bundleWithMessageAndBundle) [] of
         Panics p \<Rightarrow> Panics p
       | Returns (els, Some err) \<Rightarrow> Returns (NewBundle, Some err)
       | Returns (els, None) \<Rightarrow>
           Returns (Bundle (fst (decodeTimeTag (drop 8 bundleWithMessageAndBundle))) els, None))"
    by blast
  have loop: "bundleLoop (drop 16 bundleWithMessageAndBundle) [] = Returns (?els, None)"
    using eq unfolding run
    by (auto split: outcome.splits prod.splits option.splits)
  from A h1 have s1: "bundleLoop [0, 0] [PNil] = Returns ([PNil], Some ErrUnexpectedEOF)" by blast
  from B h2 have s2: "bundleLoop [0, 0, 0, 8, 1, 2, 3, 4] [PNil]
      = Returns ([PNil], Some (Errorf ''Malformed bundle''))" by blast
  from C h3 have "bundleLoop ([0, 0, 0, 4] @ str ''abcd'') [PNil] =
      (case decodePacket (take (unat (Uint32 (take 4 ([0, 0, 0, 4] @ str ''abcd''))))
          (drop 4 ([0, 0, 0, 4] @ str ''abcd''))) of
         Panics p \<Rightarrow> Panics p
       | Returns (p, Some err) \<Rightarrow> Returns ([PNil], Some err)
       | Returns (p, None) \<Rightarrow>
           bundleLoop (drop (4 + unat (Uint32 (take 4 ([0, 0, 0, 4] @ str ''abcd''))))
             ([0, 0, 0, 4] @ str ''abcd'')) ([PNil] @ [p]))"
    by blast
  then have s3: "bundleLoop ([0, 0, 0, 4] @ str ''abcd'') [PNil]
      = Returns ([PNil], Some (Errorf ''Malformed packet''))"
    unfolding child by simp
  from run hdr loop s1 s2 s3 bad show ?thesis by blast
qed

text \<open>
  Claim C8: a failed decode of a child packet makes the whole bundle decode return an
  error. The code does otherwise on the 24-byte bundle whose only child is the 4 bytes
  \<^verbatim>\<open>2F 00 01 00\<close>: the child is decoded as a message, its address has the non-zero padding
  byte 01, \<^verbatim>\<open>decodeString\<close> panics there (the defect of claim C3), nothing between it and the
  caller of the bundle decoder recovers, and so the bundle decode panics instead of
  returning an error.
\<close>

theorem Bundle_UnmarshalBinary_child_panics:
  "decodePacket [0x2F, 0, 1, 0] = Panics NilDereference \<and>
   Bundle_UnmarshalBinary bun
     (bundleString @ [0, 0, 0, 0, 0, 0, 0, 1] @ [0, 0, 0, 4] @ [0x2F, 0, 1, 0])
     = Panics NilDereference \<and>
   decodePacket (bundleString @ [0, 0, 0, 0, 0, 0, 0, 1] @ [0, 0, 0, 4] @ [0x2F, 0, 1, 0])
     = Panics NilDereference"
proof -
  have "decodePacket [0x2F, 0, 1, 0] = Panics NilDereference"
    by code_simp
  moreover have "Bundle_UnmarshalBinary bun
      (bundleString @ [0, 0, 0, 0, 0, 0, 0, 1] @ [0, 0, 0, 4] @ [0x2F, 0, 1, 0])
      = Panics NilDereference"
    by code_simp
  moreover have "decodePacket
      (bundleString @ [0, 0, 0, 0, 0, 0, 0, 1] @ [0, 0, 0, 4] @ [0x2F, 0, 1, 0])
      = Panics NilDereference"
    by code_simp
  ultimately show ?thesis by simp
qed

section \<open>Message round trip (claim C1)\<close>

lemma padLoop_replicate: "padLoop i data = data @ replicate (nat (i + 1)) 0"
proof (induction i data rule: padLoop.induct)
  case (1 i data)
  show ?case
  proof (cases "i \<ge> 0")
    case True
    then have "nat (i + 1) = Suc (nat i)" by simp
    with True "1.IH" show ?thesis
      by (subst padLoop.simps) (simp add: replicate_app_Cons_same)
  next
    case False
    then show ?thesis by (subst padLoop.simps) simp
  qed
qed

lemma int_round_up: "((int k + 3) AND NOT 3) = int (k + padding k)"
proof -
  define q r where "q = k div 4" and "r = k mod 4"
  then have k: "k = 4 * q + r" and r: "r < 4" by auto
  have p: "padding k = (4 - r) mod 4" by (simp add: padding_def r_def)
  have d: "(int k + 3) div 4 = int q + (int r + 3) div 4"
    by (simp add: k)
  from r consider "r = 0" | "r = 1" | "r = 2" | "r = 3" by linarith
  then show ?thesis
    unfolding int_align4 p d by cases (simp_all add: k)
qed

lemma padTo32Bits_eq: "padTo32Bits data = data @ replicate (padding (length data)) 0"
  unfolding padTo32Bits_def Let_def padLoop_replicate int_round_up by simp

lemma popPadding_zeros: "popPadding (int k) (replicate k 0 @ rest) = Returns (None, rest)"
proof (induction k)
  case 0
  then show ?case by (simp add: popPadding.simps)
next
  case (Suc k)
  have "int (Suc k) - 1 = int k" by simp
  with Suc show ?case
    by (subst popPadding.simps) (simp add: ReadByte_def)
qed

lemma decodeString_encodeString:
  assumes "0 \<notin> set s"
  shows "decodeString (encodeString s @ rest) = Returns (s, None, rest)"
proof -
  let ?p = "padding (Suc (length s))"
  have enc: "encodeString s @ rest = s @ 0 # (replicate ?p 0 @ rest)"
    by (simp add: encodeString_def padTo32Bits_eq)
  have rs: "ReadString (s @ 0 # (replicate ?p 0 @ rest)) 0 = (s @ [0], None, replicate ?p 0 @ rest)"
    by (rule ReadString_terminated [OF assms])
  have "((int (length (s @ [0])) + 3) AND NOT 3) = int (length (s @ [0]) + ?p)"
    unfolding int_round_up by simp
  then have toPop: "((int (length (s @ [0])) + 3) AND NOT 3) - int (length (s @ [0])) = int ?p"
    by simp
  show ?thesis
    unfolding enc decodeString_def rs prod.case option.case Let_def toPop popPadding_zeros
      Trim0_terminated [OF assms]
    by simp
qed


lemma Uint32_PutUint32: "Uint32 (take 4 (PutUint32 v @ rest)) = v"
proof (rule bit_word_eqI)
  fix n assume "n < LENGTH(32)"
  then consider "n < 8" | "8 \<le> n" "n < 16" | "16 \<le> n" "n < 24" | "24 \<le> n" "n < 32"
    by fastforce
  then show "bit (Uint32 (take 4 (PutUint32 v @ rest))) n = bit v n"
    by cases (auto simp add: Uint32_def PutUint32_def bit_simps)
qed

lemma binary_Read32_Put: "binary_Read32 (PutUint32 v @ rest) = (v, None, rest)"
  using Uint32_PutUint32 [of v rest]
  by (simp add: binary_Read32_def ReadFull_def PutUint32_def)

lemma padding_add4: "padding (Suc (Suc (Suc (Suc k)))) = padding k"
proof -
  have "Suc (Suc (Suc (Suc k))) = k + 4" by simp
  then show ?thesis unfolding padding_def by (metis mod_add_self2)
qed

lemma padding_le: "padding k \<le> 3"
  by (simp add: padding_def)

lemma sint_of_int_32:
  "- (2 ^ 31) \<le> k \<Longrightarrow> k < 2 ^ 31 \<Longrightarrow> sint (word_of_int k :: 32 word) = k"
  by (simp add: signed_of_int signed_take_bit_int_eq_self)

lemma word_round_up:
  "((word_of_nat k :: 32 word) + 3) AND NOT 3 = word_of_int (int (k + padding k))"
proof -
  have "((word_of_nat k :: 32 word) + 3) AND NOT 3 = word_of_int ((int k + 3) AND NOT 3)"
    by (simp add: of_int_and_eq of_int_not_eq)
  then show ?thesis unfolding int_round_up .
qed

lemma decodeByteSlice_encodeByteSlice:
  assumes "length b + 3 < 2 ^ 31"
  shows "decodeByteSlice (encodeByteSlice b @ rest) = Returns (b, None, rest)"
proof -
  let ?k = "length b"
  let ?p = "padding ?k"
  define n :: "32 word" where "n = word_of_nat ?k"
  have enc: "encodeByteSlice b @ rest = PutUint32 n @ (b @ replicate ?p 0 @ rest)"
    by (simp add: encodeByteSlice_def padTo32Bits_eq n_def PutUint32_def padding_add4 Let_def)
  have rd: "binary_Read32 (PutUint32 n @ (b @ replicate ?p 0 @ rest))
      = (n, None, b @ replicate ?p 0 @ rest)"
    by (rule binary_Read32_Put)
  from assms have k31: "int ?k < 2 ^ 31" by simp
  have sn: "sint n = int ?k"
    using k31 sint_of_int_32 [of "int ?k"] by (simp add: n_def)
  show ?thesis
  proof (cases "b = []")
    case True
    then have "n = 0" by (simp add: n_def)
    with True show ?thesis
      unfolding enc decodeByteSlice_def rd by (simp add: padding_def)
  next
    case False
    then have "sint n \<noteq> 0" by (simp add: sn)
    then have nz: "n \<noteq> 0" by auto
    have "?k + ?p \<le> ?k + 3" using padding_le [of ?k] by simp
    with assms have "int (?k + ?p) < 2 ^ 31" by simp
    then have ne: "sint ((n + 3) AND NOT 3) = int (?k + ?p)"
      unfolding n_def word_round_up using sint_of_int_32 [of "int (?k + ?p)"] by simp
    from False have rdd: "Read (b @ replicate ?p 0 @ rest) (replicate (?k + ?p) 0)
        = (b @ replicate ?p 0, ?k + ?p, None, rest)"
      by (simp add: Read_def Let_def min_def)
    show ?thesis
      unfolding enc decodeByteSlice_def rd prod.case option.case Let_def ne
      using nz sn by (simp add: rdd nat_int_add)
  qed
qed


lemma decodeTimeTag_restorable:
  assumes "restorable (ATimeTag tt)"
  shows "decodeTimeTag (encodeTimeTag tt @ rest) = (tt, None, rest)"
proof (cases "Immediate tt")
  case True
  with assms have "tt = NewImmediateTimeTag"
    by (cases tt) (simp add: NewImmediateTimeTag_def)
  with immediate_timeTag_codec [OF True, of rest] show ?thesis by blast
next
  case False
  with assms show ?thesis by (intro timeTag_restored) simp
qed

lemma restorable_typeTag:
  "restorable a \<Longrightarrow> \<exists>t. typeTag a = ([t], None) \<and> t \<noteq> 0"
  by (cases a) (simp_all add: str_def)

lemma restorable_encodeArgument:
  "restorable a \<Longrightarrow> snd (encodeArgument a) = None"
  by (cases a) simp_all

lemma readTag_restores:
  assumes "restorable a"
  shows "readTag (hd (fst (typeTag a))) (fst (encodeArgument a) @ rest) acc
    = Returns (acc @ [a], None, rest)"
proof (cases a)
  case ANil
  then show ?thesis by (simp add: readTag_def str_def)
next
  case (AInt32 v)
  then show ?thesis by (simp add: readTag_def str_def binary_Read32_Put)
next
  case (AFloat32 v)
  then show ?thesis by (simp add: readTag_def str_def binary_Read32_Put)
next
  case (AString v)
  with assms have "decodeString (encodeString v @ rest) = Returns (v, None, rest)"
    by (simp add: decodeString_encodeString)
  with AString show ?thesis by (simp add: readTag_def str_def)
next
  case (ABlob v)
  with assms have "decodeByteSlice (encodeByteSlice v @ rest) = Returns (v, None, rest)"
    by (simp add: decodeByteSlice_encodeByteSlice)
  with ABlob show ?thesis by (simp add: readTag_def str_def)
next
  case (ABool v)
  with assms show ?thesis by (simp add: readTag_def str_def)
next
  case (AInt64 v)
  then show ?thesis by (simp add: readTag_def str_def binary_Read64_Put)
next
  case (AFloat64 v)
  then show ?thesis by (simp add: readTag_def str_def binary_Read64_Put)
next
  case (ATimeTag tt)
  with assms have "decodeTimeTag (encodeTimeTag tt @ rest) = (tt, None, rest)"
    by (simp only: decodeTimeTag_restorable)
  with ATimeTag show ?thesis by (simp add: readTag_def str_def)
next
  case AUnsupported
  with assms show ?thesis by simp
qed

lemma typeTagLoop_restorable:
  "\<forall>a \<in> set args. restorable a \<Longrightarrow>
     typeTagLoop args typeTagString = (typeTagString @ tagsOf args, None)"
proof (induction args arbitrary: typeTagString)
  case Nil
  then show ?case by (simp add: tagsOf_def)
next
  case (Cons a args)
  from Cons.prems obtain t where "typeTag a = ([t], None)"
    using restorable_typeTag [of a] by auto
  with Cons show ?case by (simp add: tagsOf_def)
qed

lemma marshalLoop_restorable:
  "\<forall>a \<in> set args. restorable a \<Longrightarrow>
     marshalLoop args buf = (buf @ payloadOf args, None)"
proof (induction args arbitrary: buf)
  case Nil
  then show ?case by (simp add: payloadOf_def)
next
  case (Cons a args)
  from Cons.prems have "snd (encodeArgument a) = None"
    by (simp add: restorable_encodeArgument)
  then obtain d where "encodeArgument a = (d, None)" by (cases "encodeArgument a") simp
  with Cons show ?case by (simp add: payloadOf_def)
qed

lemma tagsOf_nonzero: "\<forall>a \<in> set args. restorable a \<Longrightarrow> 0 \<notin> set (tagsOf args)"
proof (induction args)
  case Nil
  then show ?case by (simp add: tagsOf_def)
next
  case (Cons a args)
  from Cons.prems obtain t where "typeTag a = ([t], None)" "t \<noteq> 0"
    using restorable_typeTag [of a] by auto
  with Cons show ?case by (auto simp add: tagsOf_def)
qed

lemma readLoop_restores:
  "\<forall>a \<in> set args. restorable a \<Longrightarrow>
     readLoop (tagsOf args) (payloadOf args @ rest) acc = Returns (acc @ args, None, rest)"
proof (induction args arbitrary: acc)
  case Nil
  then show ?case by (simp add: tagsOf_def payloadOf_def)
next
  case (Cons a args)
  from Cons.prems have ra: "restorable a" and rest: "\<forall>a \<in> set args. restorable a" by simp_all
  from ra obtain t where t: "typeTag a = ([t], None)"
    using restorable_typeTag [of a] by auto
  have tags: "tagsOf (a # args) = t # tagsOf args" by (simp add: tagsOf_def t)
  have payload: "payloadOf (a # args) @ rest
      = fst (encodeArgument a) @ (payloadOf args @ rest)"
    by (simp add: payloadOf_def)
  from readTag_restores [OF ra, of "payloadOf args @ rest" acc] t
  have step: "readTag t (fst (encodeArgument a) @ (payloadOf args @ rest)) acc
      = Returns (acc @ [a], None, payloadOf args @ rest)"
    by simp
  show ?case
    unfolding tags payload using Cons.IH [OF rest, of "acc @ [a]"] by (simp add: step)
qed


text \<open>
  Claim C1, as amended. For every message whose address and string arguments hold no NUL
  byte, whose blobs are at most \<open>2^31 - 4\<close> bytes long, whose boolean arguments are true,
  whose time tag arguments are restored by the time tag codec, and which has no argument
  of an unsupported type, \<^verbatim>\<open>MarshalBinary\<close> succeeds and \<^verbatim>\<open>UnmarshalBinary\<close> of its output gives
  a message equal to it, whatever the receiver held before.
\<close>

theorem Message_roundtrip:
  assumes "0 \<notin> set (Address msg)" and "\<forall>a \<in> set (Arguments msg). restorable a"
  shows "snd (Message_MarshalBinary msg) = None \<and>
    Message_UnmarshalBinary m (fst (Message_MarshalBinary msg)) = Returns (msg, None)"
proof -
  let ?tts = "str '','' @ tagsOf (Arguments msg)"
  let ?payload = "payloadOf (Arguments msg)"
  let ?data = "encodeString (Address msg) @ encodeString ?tts @ ?payload"
  have tts: "TypeTagString msg = (?tts, None)"
    by (simp add: TypeTagString_def typeTagLoop_restorable [OF assms(2)])
  have marshal: "Message_MarshalBinary msg = (?data, None)"
    by (simp add: Message_MarshalBinary_def tts marshalLoop_restorable [OF assms(2)])
  have nz: "0 \<notin> set ?tts"
    using tagsOf_nonzero [OF assms(2)] by (simp add: str_def)
  have addr: "decodeString ?data
      = Returns (Address msg, None, encodeString ?tts @ ?payload)"
    by (rule decodeString_encodeString [OF assms(1)])
  have tags: "decodeString (encodeString ?tts @ ?payload) = Returns (?tts, None, ?payload)"
    by (rule decodeString_encodeString [OF nz])
  have "readLoop (tagsOf (Arguments msg)) (?payload @ []) []
      = Returns ([] @ Arguments msg, None, [])"
    by (rule readLoop_restores [OF assms(2)])
  then have args: "readArguments ?tts ?payload = Returns (Arguments msg, None, [])"
    by (simp add: readArguments_def str_def)
  have "Message_UnmarshalBinary m ?data = Returns (msg, None)"
    by (simp only: Message_UnmarshalBinary_def addr tags args outcome.case prod.case option.case)
      simp
  with marshal show ?thesis by simp
qed

text \<open>
  Claim C1 as stated (every message of supported arguments is restored) fails: a string on
  the wire ends at its first NUL byte, so the string argument \<^verbatim>\<open>"abc\x00"\<close> comes back as
  \<^verbatim>\<open>"abc"\<close>.
\<close>

theorem Message_roundtrip_counterexample:
  "Message_UnmarshalBinary \<lparr>Address = [], Arguments = []\<rparr>
     (fst (Message_MarshalBinary \<lparr>Address = str ''/x'', Arguments = [AString (str ''abc'' @ [0])]\<rparr>))
   \<noteq> Returns (\<lparr>Address = str ''/x'', Arguments = [AString (str ''abc'' @ [0])]\<rparr>, None)"
  by code_simp

lemma Message_with_NUL_string_decodes_shorter:
  "Message_UnmarshalBinary \<lparr>Address = [], Arguments = []\<rparr>
     (fst (Message_MarshalBinary \<lparr>Address = str ''/x'', Arguments = [AString (str ''abc'' @ [0])]\<rparr>))
   = Returns (\<lparr>Address = str ''/x'', Arguments = [AString (str ''abc'')]\<rparr>, None)"
  by code_simp

text \<open>The other bounds of the amended claim are met as well: an address with a NUL byte
  comes back shorter, the boolean false comes back as true, and a blob of \<open>2^31 - 3\<close>
  bytes makes the decoder of its own encoding panic.\<close>

lemma Message_with_NUL_address_decodes_shorter:
  "Message_UnmarshalBinary \<lparr>Address = [], Arguments = []\<rparr>
     (fst (Message_MarshalBinary \<lparr>Address = str ''/x'' @ [0], Arguments = []\<rparr>))
   = Returns (\<lparr>Address = str ''/x'', Arguments = []\<rparr>, None)"
  by code_simp

lemma Message_with_false_decodes_true:
  "Message_UnmarshalBinary \<lparr>Address = [], Arguments = []\<rparr>
     (fst (Message_MarshalBinary \<lparr>Address = str ''/x'', Arguments = [ABool False]\<rparr>))
   = Returns (\<lparr>Address = str ''/x'', Arguments = [ABool True]\<rparr>, None)"
  by code_simp

lemma blob_too_long_panics:
  assumes "length b = 2147483645"
  shows "decodeByteSlice (encodeByteSlice b @ rest) = Panics MakeSliceLen"
proof -
  let ?p = "padding (length b)"
  define n :: "32 word" where "n = word_of_nat (length b)"
  have enc: "encodeByteSlice b @ rest = PutUint32 n @ (b @ replicate ?p 0 @ rest)"
    by (simp add: encodeByteSlice_def padTo32Bits_eq n_def PutUint32_def padding_add4 Let_def)
  have rd: "binary_Read32 (PutUint32 n @ (b @ replicate ?p 0 @ rest))
      = (n, None, b @ replicate ?p 0 @ rest)"
    by (rule binary_Read32_Put)
  have n: "n = 0x7FFFFFFD" by (simp add: n_def assms)
  show ?thesis
    unfolding enc decodeByteSlice_def rd prod.case option.case Let_def
    by (simp add: n)
qed

theorem Message_roundtrip_witness:
  "snd (Message_MarshalBinary \<lparr>Address = str ''/foo'', Arguments =
       [AInt32 1000, AInt32 (- 1), AString (str ''hello''), AFloat32 0x3F9DF3B6, ABlob (str ''abcde''),
        ABool True, ANil, AInt64 90000000000, AFloat64 0x4024333333333333,
        ATimeTag NewImmediateTimeTag,
        ATimeTag (NewTimeTag \<lparr>tsec = 1514764800, tnsec = 500000000, tmono = None, tloc = UTC\<rparr>)]\<rparr>) = None \<and>
   Message_UnmarshalBinary \<lparr>Address = [], Arguments = []\<rparr>
     (fst (Message_MarshalBinary \<lparr>Address = str ''/foo'', Arguments =
       [AInt32 1000, AInt32 (- 1), AString (str ''hello''), AFloat32 0x3F9DF3B6, ABlob (str ''abcde''),
        ABool True, ANil, AInt64 90000000000, AFloat64 0x4024333333333333,
        ATimeTag NewImmediateTimeTag,
        ATimeTag (NewTimeTag \<lparr>tsec = 1514764800, tnsec = 500000000, tmono = None, tloc = UTC\<rparr>)]\<rparr>))
   = Returns (\<lparr>Address = str ''/foo'', Arguments =
       [AInt32 1000, AInt32 (- 1), AString (str ''hello''), AFloat32 0x3F9DF3B6, ABlob (str ''abcde''),
        ABool True, ANil, AInt64 90000000000, AFloat64 0x4024333333333333,
        ATimeTag NewImmediateTimeTag,
        ATimeTag (NewTimeTag \<lparr>tsec = 1514764800, tnsec = 500000000, tmono = None, tloc = UTC\<rparr>)]\<rparr>, None)"
proof -
  let ?msg = "\<lparr>Address = str ''/foo'', Arguments =
       [AInt32 1000, AInt32 (- 1), AString (str ''hello''), AFloat32 0x3F9DF3B6, ABlob (str ''abcde''),
        ABool True, ANil, AInt64 90000000000, AFloat64 0x4024333333333333,
        ATimeTag NewImmediateTimeTag,
        ATimeTag (NewTimeTag \<lparr>tsec = 1514764800, tnsec = 500000000, tmono = None, tloc = UTC\<rparr>)]\<rparr>"
  have a: "0 \<notin> set (Address ?msg)" by (simp add: str_def)
  have b: "\<forall>a \<in> set (Arguments ?msg). restorable a"
    by (simp add: str_def NewImmediateTimeTag_def NewTimeTag_def)
  from Message_roundtrip [OF a b, of "\<lparr>Address = [], Arguments = []\<rparr>"]
  show ?thesis .
qed

section \<open>Pattern matching at dispatch (claim C2)\<close>

text \<open>
  Claim C2: the matcher compiled at registration and applied by \<^verbatim>\<open>Dispatch\<close> lets \<^verbatim>\<open>/foo/1\<close>
  match \<^verbatim>\<open>/foo/?\<close> and \<^verbatim>\<open>/foo/12\<close> not match it, \<^verbatim>\<open>/foo/bar\<close> match \<^verbatim>\<open>/foo/*\<close>, \<^verbatim>\<open>/a/x\<close> and
  \<^verbatim>\<open>/a/y\<close> match \<^verbatim>\<open>/a/{x,y,z}\<close> and \<^verbatim>\<open>/a/q\<close> not match it. The code decides five of the six
  cases so. The pattern \<^verbatim>\<open>/foo/?\<close> is compiled to the expression \<^verbatim>\<open>\/foo\/.\<close> without anchors
  and applied with \<^verbatim>\<open>MatchString\<close>, which looks for a match anywhere in the string, so the
  handler registered for \<^verbatim>\<open>/foo/?\<close> is called for the address \<^verbatim>\<open>/foo/12\<close>.
\<close>

theorem Dispatch_pattern_cases:
  "invoked (str ''/foo/?'') (str ''/foo/12'') = Some [str ''/foo/12''] \<and>
   invoked (str ''/foo/?'') (str ''/foo/1'') = Some [str ''/foo/1''] \<and>
   invoked (str ''/foo/*'') (str ''/foo/bar'') = Some [str ''/foo/bar''] \<and>
   invoked (str ''/a/{x,y,z}'') (str ''/a/x'') = Some [str ''/a/x''] \<and>
   invoked (str ''/a/{x,y,z}'') (str ''/a/y'') = Some [str ''/a/y''] \<and>
   invoked (str ''/a/{x,y,z}'') (str ''/a/q'') = Some []"
proof -
  have "invoked (str ''/foo/?'') (str ''/foo/12'') = Some [str ''/foo/12'']" by code_simp
  moreover have "invoked (str ''/foo/?'') (str ''/foo/1'') = Some [str ''/foo/1'']" by code_simp
  moreover have "invoked (str ''/foo/*'') (str ''/foo/bar'') = Some [str ''/foo/bar'']" by code_simp
  moreover have "invoked (str ''/a/{x,y,z}'') (str ''/a/x'') = Some [str ''/a/x'']" by code_simp
  moreover have "invoked (str ''/a/{x,y,z}'') (str ''/a/y'') = Some [str ''/a/y'']" by code_simp
  moreover have "invoked (str ''/a/{x,y,z}'') (str ''/a/q'') = Some []" by code_simp
  ultimately show ?thesis by blast
qed

text \<open>The expression that \<^verbatim>\<open>/foo/?\<close> is compiled to, and the match it finds in \<^verbatim>\<open>/foo/12\<close>:
  the first six characters.\<close>

lemma foo_pattern_compiled:
  "addressPatternToRegexp (str ''/foo/?'') =
     Compiled (Cat (Lit 0x2F) (Cat (Lit 0x66) (Cat (Lit 0x6F) (Cat (Lit 0x6F) (Cat (Lit 0x2F) Dot)))))"
  by code_simp

lemma foo_pattern_unanchored:
  "accepts (Cat (Lit 0x2F) (Cat (Lit 0x66) (Cat (Lit 0x6F) (Cat (Lit 0x6F) (Cat (Lit 0x2F) Dot)))))
     (take 6 (str ''/foo/12'')) \<and>
   \<not> accepts (Cat (Lit 0x2F) (Cat (Lit 0x66) (Cat (Lit 0x6F) (Cat (Lit 0x6F) (Cat (Lit 0x2F) Dot)))))
     (str ''/foo/12'')"
  by code_simp

end
